theory Spec2Isabelle
  imports Complex_Main "HOL-Library.Word" "HOL-Library.Sublist"
begin

section \<open>Strings of the source language\<close>

text \<open>
  A JavaScript string is a sequence of UTF-16 code units. The functions of
  \<^verbatim>\<open>src/utils/metadataFetcher.js\<close> work on code units throughout (none of its
  regular expressions carries the \<^verbatim>\<open>u\<close> flag), so a string is a list of 16-bit
  words. A literal of the source is written \<open>js ''...''\<close>.
\<close>

type_synonym jschar = "16 word"
type_synonym jsstring = "jschar list"

definition js :: "string \<Rightarrow> jsstring" where
  "js s = map of_char s"

definition chLT :: jschar where "chLT = 0x3C"          \<comment> \<open>\<^verbatim>\<open><\<close>\<close>
definition chGT :: jschar where "chGT = 0x3E"          \<comment> \<open>\<^verbatim>\<open>>\<close>\<close>
definition chComma :: jschar where "chComma = 0x2C"
definition chSlash :: jschar where "chSlash = 0x2F"
definition chQuestion :: jschar where "chQuestion = 0x3F"
definition chSemicolon :: jschar where "chSemicolon = 0x3B"

definition isLineTerminator :: "jschar \<Rightarrow> bool" where
  \<comment> \<open>ECMAScript LineTerminator: LF, CR, LS, PS. The regular expression atom \<^verbatim>\<open>.\<close>
      matches every code unit but these.\<close>
  "isLineTerminator c \<longleftrightarrow> c = 0x0A \<or> c = 0x0D \<or> c = 0x2028 \<or> c = 0x2029"

definition isWhiteSpace :: "jschar \<Rightarrow> bool" where
  \<comment> \<open>ECMAScript WhiteSpace: TAB, VT, FF, ZWNBSP and the Unicode category Zs.\<close>
  "isWhiteSpace c \<longleftrightarrow>
     c = 0x09 \<or> c = 0x0B \<or> c = 0x0C \<or> c = 0x20 \<or> c = 0xA0 \<or> c = 0x1680 \<or>
     (0x2000 \<le> c \<and> c \<le> 0x200A) \<or> c = 0x202F \<or> c = 0x205F \<or> c = 0x3000 \<or> c = 0xFEFF"

definition isTrimmed :: "jschar \<Rightarrow> bool" where
  \<comment> \<open>What \<^verbatim>\<open>String.prototype.trim\<close> removes at both ends.\<close>
  "isTrimmed c \<longleftrightarrow> isWhiteSpace c \<or> isLineTerminator c"

definition trim :: "jsstring \<Rightarrow> jsstring" where
  "trim s = rev (dropWhile isTrimmed (rev (dropWhile isTrimmed s)))"

definition substring :: "nat \<Rightarrow> nat \<Rightarrow> jsstring \<Rightarrow> jsstring" where
  \<comment> \<open>\<^verbatim>\<open>s.substring(a, b)\<close> for \<open>a \<le> b\<close>, indices beyond the end clamped.\<close>
  "substring a b s = take (b - a) (drop a s)"

section \<open>The sanitizer\<close>

text \<open>
  \<^verbatim>\<open>text.replace(/<[^>]*>?/gm, '')\<close>: at every \<^verbatim>\<open><\<close> the match takes the longest run
  of code units other than \<^verbatim>\<open>>\<close> (line terminators included, the class is a negated
  one) and then a \<^verbatim>\<open>>\<close> when there is one. The match is deleted and the scan goes on
  behind it.
\<close>

definition tagRest :: "jsstring \<Rightarrow> jsstring" where
  \<comment> \<open>what is left behind a \<^verbatim>\<open><\<close>, after \<^verbatim>\<open>[^>]*>?\<close> has matched\<close>
  "tagRest cs = (case dropWhile (\<lambda>c. c \<noteq> chGT) cs of [] \<Rightarrow> [] | g # r \<Rightarrow> r)"

function stripTags :: "jsstring \<Rightarrow> jsstring" where
  "stripTags [] = []"
| "stripTags (c # cs) = (if c = chLT then stripTags (tagRest cs) else c # stripTags cs)"
  by pat_completeness auto
termination
proof (relation "measure length")
  fix c :: jschar and cs :: jsstring
  have "length (tagRest cs) \<le> length cs"
    by (induction cs) (simp_all add: tagRest_def)
  then show "(tagRest cs, c # cs) \<in> measure length"
    by simp
qed simp_all

definition isControl :: "jschar \<Rightarrow> bool" where
  \<comment> \<open>the class \<^verbatim>\<open>[\x00-\x1F\x7F-\x9F]\<close>\<close>
  "isControl c \<longleftrightarrow> c \<le> 0x1F \<or> (0x7F \<le> c \<and> c \<le> 0x9F)"

definition stripControl :: "jsstring \<Rightarrow> jsstring" where
  "stripControl s = filter (\<lambda>c. \<not> isControl c) s"

definition cleanText :: "jsstring \<Rightarrow> jsstring" where
  \<comment> \<open>the body of \<^verbatim>\<open>cleanMetadata\<close> behind its guard, on a string\<close>
  "cleanText s = substring 0 100 (trim (stripControl (stripTags s)))"

section \<open>Values, exceptions and property access\<close>

text \<open>
  What \<^verbatim>\<open>response.json()\<close> hands to the probes is a parsed JSON document. A number is
  only ever tested for being zero by the code below, never computed with, so its carrier
  is \<^typ>\<open>rat\<close>. An object is the list of its properties; \<^const>\<open>map_of\<close> reads
  one. \<open>None\<close> of \<open>jsvalue\<close> is \<^verbatim>\<open>undefined\<close>.
\<close>

datatype json =
    JNull
  | JBool bool
  | JNumber rat
  | JString jsstring
  | JArray "json list"
  | JObject "(jsstring \<times> json) list"

type_synonym jsvalue = "json option"

datatype error = TypeError | SyntaxError | NetworkError

fun truthyJson :: "json \<Rightarrow> bool" where
  "truthyJson JNull = False"
| "truthyJson (JBool b) = b"
| "truthyJson (JNumber n) = (n \<noteq> 0)"
| "truthyJson (JString s) = (s \<noteq> [])"
| "truthyJson (JArray xs) = True"
| "truthyJson (JObject kvs) = True"

definition truthy :: "jsvalue \<Rightarrow> bool" where
  "truthy v = (case v of None \<Rightarrow> False | Some j \<Rightarrow> truthyJson j)"

definition lookup :: "json \<Rightarrow> jsstring \<Rightarrow> jsvalue" where
  \<comment> \<open>\<^verbatim>\<open>j.name\<close> for \<open>j\<close> not \<^verbatim>\<open>null\<close> and a name that no prototype defines
      (\<^verbatim>\<open>icestats\<close>, \<^verbatim>\<open>source\<close>, \<^verbatim>\<open>title\<close>, \<^verbatim>\<open>songtitle\<close>, \<^verbatim>\<open>streams\<close>): only an object has it\<close>
  "lookup j name = (case j of JObject kvs \<Rightarrow> map_of kvs name | _ \<Rightarrow> None)"

definition getField :: "jsvalue \<Rightarrow> jsstring \<Rightarrow> error + jsvalue" where
  \<comment> \<open>\<^verbatim>\<open>v.name\<close>: a TypeError on \<^verbatim>\<open>null\<close> and \<^verbatim>\<open>undefined\<close>\<close>
  "getField v name =
     (case v of None \<Rightarrow> Inl TypeError | Some JNull \<Rightarrow> Inl TypeError | Some j \<Rightarrow> Inr (lookup j name))"

definition andField :: "jsvalue \<Rightarrow> jsstring \<Rightarrow> jsvalue" where
  \<comment> \<open>\<^verbatim>\<open>v && v.name\<close>: the falsy \<open>v\<close> itself, or the property of the truthy one\<close>
  "andField v name = (case v of None \<Rightarrow> None | Some j \<Rightarrow> if truthyJson j then lookup j name else v)"

definition elem0 :: "json \<Rightarrow> jsvalue" where
  \<comment> \<open>\<^verbatim>\<open>j[0]\<close> for \<open>j\<close> not \<^verbatim>\<open>null\<close>: the first element of an array, the first code unit
      of a string, the property \<^verbatim>\<open>"0"\<close> of an object\<close>
  "elem0 j =
     (case j of
        JArray xs \<Rightarrow> (case xs of [] \<Rightarrow> None | x # _ \<Rightarrow> Some x)
      | JString s \<Rightarrow> (case s of [] \<Rightarrow> None | c # _ \<Rightarrow> Some (JString [c]))
      | JObject kvs \<Rightarrow> map_of kvs (js ''0'')
      | _ \<Rightarrow> None)"

definition andElem0 :: "jsvalue \<Rightarrow> jsvalue" where
  \<comment> \<open>\<^verbatim>\<open>v && v[0]\<close>\<close>
  "andElem0 v = (case v of None \<Rightarrow> None | Some j \<Rightarrow> if truthyJson j then elem0 j else v)"

definition cleanMetadata :: "jsvalue \<Rightarrow> error + jsstring" where
  \<comment> \<open>\<^verbatim>\<open>if (!text) return ''\<close>; behind the guard \<^verbatim>\<open>text.replace\<close> is a function only when
      \<open>text\<close> is a string, and calling it on anything else is a TypeError\<close>
  "cleanMetadata text =
     (if \<not> truthy text then Inr []
      else (case text of Some (JString s) \<Rightarrow> Inr (cleanText s) | _ \<Rightarrow> Inl TypeError))"

definition returnClean :: "jsvalue \<Rightarrow> error + jsstring option" where
  \<comment> \<open>\<^verbatim>\<open>return cleanMetadata(v)\<close> inside a probe, whose result is a string or \<^verbatim>\<open>null\<close>\<close>
  "returnClean v = (case cleanMetadata v of Inl e \<Rightarrow> Inl e | Inr s \<Rightarrow> Inr (Some s))"

section \<open>The two regular expressions of the text probes\<close>

text \<open>
  The matcher backtracks as the source's engine does: each piece of a pattern takes the
  rest of the pattern as a continuation, a greedy star tries the longest run first, a lazy
  one the shortest, and \<^verbatim>\<open>String.prototype.match\<close> tries the start positions from the
  left.
\<close>

fun dotStar :: "(jsstring \<Rightarrow> 'a option) \<Rightarrow> jsstring \<Rightarrow> 'a option" where
  \<comment> \<open>\<^verbatim>\<open>.*\<close> followed by \<open>k\<close>\<close>
  "dotStar k [] = k []"
| "dotStar k (c # cs) =
     (if isLineTerminator c then k (c # cs)
      else (case dotStar k cs of Some r \<Rightarrow> Some r | None \<Rightarrow> k (c # cs)))"

definition lit :: "jschar \<Rightarrow> (jsstring \<Rightarrow> 'a option) \<Rightarrow> jsstring \<Rightarrow> 'a option" where
  \<comment> \<open>one literal code unit followed by \<open>k\<close>\<close>
  "lit a k s = (case s of [] \<Rightarrow> None | c # cs \<Rightarrow> if c = a then k cs else None)"

definition captureDotStar :: "jsstring \<Rightarrow> jsstring option" where
  \<comment> \<open>the group \<^verbatim>\<open>(.*)\<close> at the end of a pattern: the longest run, and the match succeeds\<close>
  "captureDotStar s = Some (takeWhile (\<lambda>c. \<not> isLineTerminator c) s)"

fun searchFrom :: "(jsstring \<Rightarrow> 'a option) \<Rightarrow> jsstring \<Rightarrow> 'a option" where
  \<comment> \<open>the leftmost start position at which the pattern \<open>m\<close> matches\<close>
  "searchFrom m [] = m []"
| "searchFrom m (c # cs) = (case m (c # cs) of Some r \<Rightarrow> Some r | None \<Rightarrow> searchFrom m cs)"

definition commaField :: "(jsstring \<Rightarrow> 'a option) \<Rightarrow> jsstring \<Rightarrow> 'a option" where
  \<comment> \<open>\<^verbatim>\<open>.*,\<close> followed by \<open>k\<close>\<close>
  "commaField k = dotStar (lit chComma k)"

definition matchShoutcastV1 :: "jsstring \<Rightarrow> jsstring option" where
  \<comment> \<open>group 1 of \<^verbatim>\<open>text.match(/.*,.*,.*,.*,.*,.*,(.*)/)\<close>, \<open>None\<close> when there is no match\<close>
  "matchShoutcastV1 text =
     searchFrom
       (commaField (commaField (commaField (commaField (commaField (commaField captureDotStar))))))
       text"

definition asciiUpper :: "jschar \<Rightarrow> jschar" where
  "asciiUpper c = (if 0x61 \<le> c \<and> c \<le> 0x7A then c - 0x20 else c)"

fun litCI :: "jsstring \<Rightarrow> (jsstring \<Rightarrow> 'a option) \<Rightarrow> jsstring \<Rightarrow> 'a option" where
  \<comment> \<open>an ASCII literal under the flag \<^verbatim>\<open>i\<close>, followed by \<open>k\<close>. Without the flag
      \<^verbatim>\<open>u\<close> a code unit beyond ASCII never folds onto an ASCII one, so two code units
      agree when their ASCII upper cases do.\<close>
  "litCI [] k s = k s"
| "litCI (p # ps) k [] = None"
| "litCI (p # ps) k (c # cs) = (if asciiUpper c = asciiUpper p then litCI ps k cs else None)"

fun captureLazy :: "(jsstring \<Rightarrow> unit option) \<Rightarrow> jsstring \<Rightarrow> jsstring option" where
  \<comment> \<open>the group \<^verbatim>\<open>(.*?)\<close> followed by \<open>k\<close>: the shortest run behind which \<open>k\<close> matches\<close>
  "captureLazy k [] = (case k [] of Some u \<Rightarrow> Some [] | None \<Rightarrow> None)"
| "captureLazy k (c # cs) =
     (case k (c # cs) of
        Some u \<Rightarrow> Some []
      | None \<Rightarrow> if isLineTerminator c then None else map_option (Cons c) (captureLazy k cs))"

definition currentSongOpen :: jsstring where
  \<comment> \<open>the literal in front of the group of the second pattern\<close>
  "currentSongOpen = js ''Current Song:</td><td class=\"streamdata\">''"

definition matchIcecastRaw :: "jsstring \<Rightarrow> jsstring option" where
  \<comment> \<open>group 1 of
      \<^verbatim>\<open>text.match(/Current Song:<\/td><td class="streamdata">(.*?)<\/td>/i)\<close>\<close>
  "matchIcecastRaw text =
     searchFrom (litCI currentSongOpen (captureLazy (litCI (js ''</td>'') (\<lambda>s. Some ())))) text"

section \<open>The network and the four probes\<close>

text \<open>
  \<^verbatim>\<open>fetch\<close> is the one effect of the module. The state threaded through the calls is
  the list of the URLs requested so far; the network answers the \<open>k\<close>-th request of a run,
  for a URL, with a rejection or a response. Reading the body of a response as text or as
  JSON can itself fail (a connection that drops, a body that is not JSON), so both readings
  are results; \<^verbatim>\<open>console.log\<close> is left out.
\<close>

record response =
  ok :: bool
  bodyText :: "error + jsstring"
  bodyJson :: "error + json"

type_synonym network = "nat \<Rightarrow> jsstring \<Rightarrow> error + response"
type_synonym requests = "jsstring list"

definition fetch :: "network \<Rightarrow> jsstring \<Rightarrow> requests \<Rightarrow> (error + response) \<times> requests" where
  "fetch net u reqs = (net (length reqs) u, reqs @ [u])"

datatype 'a settled = Fulfilled 'a | Rejected error

definition tryCatchNull :: "(error + 'a option) \<Rightarrow> 'a option settled" where
  \<comment> \<open>\<^verbatim>\<open>try { ... } catch (e) { return null; }\<close> as the whole body of an async function\<close>
  "tryCatchNull body = (case body of Inl e \<Rightarrow> Fulfilled None | Inr v \<Rightarrow> Fulfilled v)"

definition CORS_PROXY :: jsstring where
  "CORS_PROXY = js ''https://corsproxy.io/?''"

definition shoutcastV1Body :: "error + response \<Rightarrow> error + jsstring option" where
  "shoutcastV1Body fetched =
     (case fetched of
        Inl e \<Rightarrow> Inl e
      | Inr response \<Rightarrow>
          if \<not> ok response then Inr None
          else (case bodyText response of
                  Inl e \<Rightarrow> Inl e
                | Inr text \<Rightarrow>
                    (case matchShoutcastV1 text of
                       Some m1 \<Rightarrow> returnClean (Some (JString m1))
                     | None \<Rightarrow> Inr None)))"

definition fetchShoutcastV1 ::
  "network \<Rightarrow> jsstring \<Rightarrow> requests \<Rightarrow> jsstring option settled \<times> requests" where
  "fetchShoutcastV1 net baseUrl reqs =
     (let (fetched, reqs') = fetch net (CORS_PROXY @ baseUrl @ js ''/7.html'') reqs
      in (tryCatchNull (shoutcastV1Body fetched), reqs'))"

fun scanSources :: "json list \<Rightarrow> error + jsstring option" where
  \<comment> \<open>the \<^verbatim>\<open>for (const source of sources)\<close> loop; falling out of it leads to
      \<^verbatim>\<open>return null\<close>\<close>
  "scanSources [] = Inr None"
| "scanSources (source # rest) =
     (case getField (Some source) (js ''title'') of
        Inl e \<Rightarrow> Inl e
      | Inr title \<Rightarrow> if truthy title then returnClean title else scanSources rest)"

definition icecastJsonBody :: "error + response \<Rightarrow> error + jsstring option" where
  "icecastJsonBody fetched =
     (case fetched of
        Inl e \<Rightarrow> Inl e
      | Inr response \<Rightarrow>
          if \<not> ok response then Inr None
          else (case bodyJson response of
                  Inl e \<Rightarrow> Inl e
                | Inr data \<Rightarrow>
                    (let source = andField (andField (Some data) (js ''icestats'')) (js ''source'')
                     in if truthy source
                        then scanSources (case source of Some (JArray xs) \<Rightarrow> xs | Some j \<Rightarrow> [j] | None \<Rightarrow> [])
                        else Inr None)))"

definition fetchIcecastJson ::
  "network \<Rightarrow> jsstring \<Rightarrow> requests \<Rightarrow> jsstring option settled \<times> requests" where
  "fetchIcecastJson net baseUrl reqs =
     (let (fetched, reqs') = fetch net (CORS_PROXY @ baseUrl @ js ''/status-json.xsl'') reqs
      in (tryCatchNull (icecastJsonBody fetched), reqs'))"

definition shoutcastV2Body :: "error + response \<Rightarrow> error + jsstring option" where
  \<comment> \<open>where a guard \<^verbatim>\<open>a && a.b && ...\<close> is truthy, its value is the value of the property
      chain that the \<^verbatim>\<open>return\<close> behind it reads again\<close>
  "shoutcastV2Body fetched =
     (case fetched of
        Inl e \<Rightarrow> Inl e
      | Inr response \<Rightarrow>
          if \<not> ok response then Inr None
          else (case bodyJson response of
                  Inl e \<Rightarrow> Inl e
                | Inr data \<Rightarrow>
                    if truthy (andField (Some data) (js ''songtitle''))
                    then returnClean (lookup data (js ''songtitle''))
                    else if truthy (andField (andElem0 (andField (Some data) (js ''streams'')))
                                      (js ''songtitle''))
                    then returnClean (andField (andElem0 (andField (Some data) (js ''streams'')))
                                        (js ''songtitle''))
                    else Inr None))"

definition fetchShoutcastV2 ::
  "network \<Rightarrow> jsstring \<Rightarrow> requests \<Rightarrow> jsstring option settled \<times> requests" where
  "fetchShoutcastV2 net baseUrl reqs =
     (let (fetched, reqs') = fetch net (CORS_PROXY @ baseUrl @ js ''/stats?json=1'') reqs
      in (tryCatchNull (shoutcastV2Body fetched), reqs'))"

definition icecastRawBody :: "error + response \<Rightarrow> error + jsstring option" where
  "icecastRawBody fetched =
     (case fetched of
        Inl e \<Rightarrow> Inl e
      | Inr response \<Rightarrow>
          if \<not> ok response then Inr None
          else (case bodyText response of
                  Inl e \<Rightarrow> Inl e
                | Inr text \<Rightarrow>
                    (case matchIcecastRaw text of
                       Some m1 \<Rightarrow> returnClean (Some (JString m1))
                     | None \<Rightarrow> Inr None)))"

definition fetchIcecastRaw ::
  "network \<Rightarrow> jsstring \<Rightarrow> requests \<Rightarrow> jsstring option settled \<times> requests" where
  "fetchIcecastRaw net baseUrl reqs =
     (let (fetched, reqs') = fetch net (CORS_PROXY @ baseUrl @ js ''/status.xsl'') reqs
      in (tryCatchNull (icecastRawBody fetched), reqs'))"

section \<open>The base URL\<close>

text \<open>
  \<^verbatim>\<open>new URL(streamUrl)\<close> is the platform's parser: it throws a TypeError or yields an
  object of which \<^verbatim>\<open>getBaseUrl\<close> reads three fields. The parser is a parameter of the
  model. \<open>parseURL\<close> below is its reading of a URL of the plain shape
  \<^verbatim>\<open>scheme://host/path?query#fragment\<close>, for which the platform normalises nothing; it
  serves where a closed term needs a parser.
\<close>

record url =
  protocol :: jsstring
  host :: jsstring
  pathname :: jsstring

type_synonym urlParser = "jsstring \<Rightarrow> error + url"

definition parseURL :: urlParser where
  "parseURL s =
     (let scheme = takeWhile (\<lambda>c. c \<noteq> 0x3A) s;
          rest = drop (length scheme) s
      in if scheme = [] \<or> \<not> prefix (js ''://'') rest then Inl TypeError
         else (let r = drop 3 rest;
                   h = takeWhile (\<lambda>c. c \<noteq> chSlash \<and> c \<noteq> chQuestion \<and> c \<noteq> 0x23) r;
                   p = takeWhile (\<lambda>c. c \<noteq> chQuestion \<and> c \<noteq> 0x23) (drop (length h) r)
               in if h = [] then Inl TypeError
                  else Inr \<lparr>protocol = scheme @ [0x3A], host = h,
                            pathname = (if p = [] then [chSlash] else p)\<rparr>))"

definition toLowerCase :: "jsstring \<Rightarrow> jsstring" where
  \<comment> \<open>on the letters A to Z; the one use below asks for the ASCII word \<^verbatim>\<open>stream\<close>, and
      no code unit beyond ASCII lower-cases to an ASCII letter of it\<close>
  "toLowerCase s = map (\<lambda>c. if 0x41 \<le> c \<and> c \<le> 0x5A then c + 0x20 else c) s"

fun includesStr :: "jsstring \<Rightarrow> jsstring \<Rightarrow> bool" where
  \<comment> \<open>\<^verbatim>\<open>s.includes(t)\<close>\<close>
  "includesStr [] t = (t = [])"
| "includesStr (c # cs) t = (prefix t (c # cs) \<or> includesStr cs t)"

fun split :: "jschar \<Rightarrow> jsstring \<Rightarrow> jsstring list" where
  \<comment> \<open>\<^verbatim>\<open>s.split(sep)\<close> for a separator of one code unit\<close>
  "split sep [] = [[]]"
| "split sep (c # cs) =
     (if c = sep then [] # split sep cs
      else (case split sep cs of [] \<Rightarrow> [[c]] | w # ws \<Rightarrow> (c # w) # ws))"

definition dropTrailingSlash :: "jsstring \<Rightarrow> jsstring" where
  \<comment> \<open>\<^verbatim>\<open>s.replace(/\/$/, '')\<close>\<close>
  "dropTrailingSlash s = (if s \<noteq> [] \<and> last s = chSlash then butlast s else s)"

definition getBaseUrl :: "urlParser \<Rightarrow> jsstring \<Rightarrow> jsstring" where
  "getBaseUrl newURL streamUrl =
     (case newURL streamUrl of
        Inr url \<Rightarrow>
          (let base = protocol url @ js ''//'' @ host url
           in if pathname url = js ''/'' \<or> pathname url = js ''/;'' \<or>
                 includesStr (toLowerCase (pathname url)) (js ''stream'')
              then base
              else (let segments = filter (\<lambda>s. s \<noteq> [] \<and> s \<noteq> js '';'')
                                     (split chSlash (pathname url))
                    in if length segments > 1 then base @ js ''/'' @ segments ! 0 else base))
      | Inl e \<Rightarrow> dropTrailingSlash (split chQuestion streamUrl ! 0))"

section \<open>The orchestrator\<close>

text \<open>
  Calling a probe issues its request at once and hands back a promise; the seven calls of
  the array literal therefore issue seven requests in the order of the array. The promises
  settle later, in an order the network decides: \<open>sched\<close> lists the indices of the promises
  in the order of their settling. \<^verbatim>\<open>Promise.allSettled\<close> keeps one slot for each promise,
  fills the slot of a promise when it settles, and resolves with the slots, in the order of
  the array, once all are filled; until then the caller waits (\<open>None\<close>).
\<close>

definition settleSlot :: "'a list \<Rightarrow> nat \<Rightarrow> 'a option list \<Rightarrow> 'a option list" where
  "settleSlot ps i slots =
     (if i < length ps \<and> slots ! i = None then slots[i := Some (ps ! i)] else slots)"

definition allSettled :: "nat list \<Rightarrow> 'a list \<Rightarrow> 'a list option" where
  "allSettled sched ps =
     (let slots = fold (settleSlot ps) sched (replicate (length ps) None)
      in if list_all (\<lambda>slot. slot \<noteq> None) slots then Some (map the slots) else None)"

definition strategies ::
  "urlParser \<Rightarrow> network \<Rightarrow> jsstring \<Rightarrow> requests \<Rightarrow> jsstring option settled list \<times> requests" where
  "strategies newURL net streamUrl reqs0 =
     (let base = getBaseUrl newURL streamUrl;
          (p1, reqs1) = fetchShoutcastV1 net base reqs0;
          (p2, reqs2) = fetchShoutcastV2 net base reqs1;
          (p3, reqs3) = fetchIcecastJson net base reqs2;
          (p4, reqs4) = fetchIcecastRaw net base reqs3;
          (p5, reqs5) = fetchShoutcastV1 net (split chQuestion streamUrl ! 0) reqs4;
          (p6, reqs6) = fetchIcecastJson net (split chQuestion streamUrl ! 0) reqs5;
          (p7, reqs7) = fetchIcecastRaw net (split chQuestion streamUrl ! 0) reqs6
      in ([p1, p2, p3, p4, p5, p6, p7], reqs7))"

definition hasContent :: "jsstring option settled \<Rightarrow> bool" where
  \<comment> \<open>\<^verbatim>\<open>r.status === 'fulfilled' && r.value\<close>: \<^verbatim>\<open>null\<close> and the empty string are falsy\<close>
  "hasContent r = (case r of Fulfilled v \<Rightarrow> v \<noteq> None \<and> v \<noteq> Some [] | Rejected e \<Rightarrow> False)"

definition settledValue :: "jsstring option settled \<Rightarrow> jsstring option" where
  \<comment> \<open>\<^verbatim>\<open>r.value\<close>, \<^verbatim>\<open>undefined\<close> on a rejection\<close>
  "settledValue r = (case r of Fulfilled v \<Rightarrow> v | Rejected e \<Rightarrow> None)"

definition firstOrNull :: "jsstring option list \<Rightarrow> jsstring option" where
  \<comment> \<open>\<^verbatim>\<open>valid[0] || null\<close>\<close>
  "firstOrNull valid =
     (case valid of [] \<Rightarrow> None | v # _ \<Rightarrow> if v \<noteq> None \<and> v \<noteq> Some [] then v else None)"

definition fetchLiveMetadata ::
  "urlParser \<Rightarrow> network \<Rightarrow> nat list \<Rightarrow> jsstring option \<Rightarrow> requests
     \<Rightarrow> jsstring option settled option \<times> requests" where
  \<comment> \<open>the argument \<open>None\<close> is a \<^verbatim>\<open>null\<close> or \<^verbatim>\<open>undefined\<close> stream URL; the result \<open>None\<close> is
      a call that never returns\<close>
  "fetchLiveMetadata newURL net sched streamUrl reqs =
     (case streamUrl of
        None \<Rightarrow> (Some (Fulfilled None), reqs)
      | Some s \<Rightarrow>
          if s = [] then (Some (Fulfilled None), reqs)
          else (let (ps, reqs') = strategies newURL net s reqs
                in (case allSettled sched ps of
                      None \<Rightarrow> None
                    | Some results \<Rightarrow>
                        Some (tryCatchNull
                                (Inr (firstOrNull (map settledValue (filter hasContent results))))),
                    reqs')))"

section \<open>The entry point on any argument\<close>

text \<open>
  JavaScript does not check the type of an argument. \<open>getBaseUrl\<close> and
  \<open>fetchLiveMetadata\<close> above are the two functions on the arguments their callers hand
  them, a string or, for the second, \<^verbatim>\<open>null\<close> and \<^verbatim>\<open>undefined\<close>. This section translates
  the same lines of the source for every value an argument can be. \<^verbatim>\<open>new URL\<close> converts
  its argument to a string before it parses it; the constructor together with this
  conversion is the parameter. \<^verbatim>\<open>streamUrl.split\<close> is a function only when the argument
  is a string, and calling it on anything else is a TypeError. In \<^verbatim>\<open>fetchLiveMetadata\<close>
  the call of \<^verbatim>\<open>getBaseUrl\<close> and the array of the probes stand in front of the \<^verbatim>\<open>try\<close>:
  what they throw rejects the promise of the call. On a string the definitions agree with
  the ones above (\<open>fetchLiveMetadata_value_string\<close>).
\<close>

type_synonym valueParser = "json \<Rightarrow> error + url"


definition splitFirst :: "json \<Rightarrow> error + jsstring" where
  \<comment> \<open>\<^verbatim>\<open>streamUrl.split('?')[0]\<close>\<close>
  "splitFirst v = (case v of JString s \<Rightarrow> Inr (split chQuestion s ! 0) | _ \<Rightarrow> Inl TypeError)"

definition getBaseUrl_value :: "valueParser \<Rightarrow> json \<Rightarrow> error + jsstring" where
  "getBaseUrl_value newURL streamUrl =
     (case newURL streamUrl of
        Inr url \<Rightarrow>
          (let base = protocol url @ js ''//'' @ host url
           in if pathname url = js ''/'' \<or> pathname url = js ''/;'' \<or>
                 includesStr (toLowerCase (pathname url)) (js ''stream'')
              then Inr base
              else (let segments = filter (\<lambda>s. s \<noteq> [] \<and> s \<noteq> js '';'')
                                     (split chSlash (pathname url))
                    in if length segments > 1 then Inr (base @ js ''/'' @ segments ! 0)
                       else Inr base))
      | Inl e \<Rightarrow>
          (case splitFirst streamUrl of
             Inl thrown \<Rightarrow> Inl thrown
           | Inr first \<Rightarrow> Inr (dropTrailingSlash first)))"

definition strategies_value ::
  "valueParser \<Rightarrow> network \<Rightarrow> json \<Rightarrow> requests
     \<Rightarrow> (error + jsstring option settled list) \<times> requests" where
  \<comment> \<open>\<open>Inl\<close> with the requests issued before the exception\<close>
  "strategies_value newURL net streamUrl reqs0 =
     (case getBaseUrl_value newURL streamUrl of
        Inl thrown \<Rightarrow> (Inl thrown, reqs0)
      | Inr base \<Rightarrow>
          (let (p1, reqs1) = fetchShoutcastV1 net base reqs0;
               (p2, reqs2) = fetchShoutcastV2 net base reqs1;
               (p3, reqs3) = fetchIcecastJson net base reqs2;
               (p4, reqs4) = fetchIcecastRaw net base reqs3
           in (case splitFirst streamUrl of
                 Inl thrown \<Rightarrow> (Inl thrown, reqs4)
               | Inr raw5 \<Rightarrow>
                   (let (p5, reqs5) = fetchShoutcastV1 net raw5 reqs4
                    in (case splitFirst streamUrl of
                          Inl thrown \<Rightarrow> (Inl thrown, reqs5)
                        | Inr raw6 \<Rightarrow>
                            (let (p6, reqs6) = fetchIcecastJson net raw6 reqs5
                             in (case splitFirst streamUrl of
                                   Inl thrown \<Rightarrow> (Inl thrown, reqs6)
                                 | Inr raw7 \<Rightarrow>
                                     (let (p7, reqs7) = fetchIcecastRaw net raw7 reqs6
                                      in (Inr [p1, p2, p3, p4, p5, p6, p7], reqs7)))))))))"

definition fetchLiveMetadata_value ::
  "valueParser \<Rightarrow> network \<Rightarrow> nat list \<Rightarrow> jsvalue \<Rightarrow> requests
     \<Rightarrow> jsstring option settled option \<times> requests" where
  "fetchLiveMetadata_value newURL net sched streamUrl reqs =
     (case streamUrl of
        None \<Rightarrow> (Some (Fulfilled None), reqs)
      | Some v \<Rightarrow>
          if \<not> truthyJson v then (Some (Fulfilled None), reqs)
          else (case strategies_value newURL net v reqs of
                  (Inl thrown, reqs') \<Rightarrow> (Some (Rejected thrown), reqs')
                | (Inr ps, reqs') \<Rightarrow>
                    (case allSettled sched ps of
                       None \<Rightarrow> None
                     | Some results \<Rightarrow>
                         Some (tryCatchNull
                                 (Inr (firstOrNull (map settledValue (filter hasContent results))))),
                     reqs')))"

section \<open>A reading of the first pattern\<close>

text \<open>
  The theorem on the Shoutcast v1 probe states what the pattern captures on a body of one
  line in terms of this function.
\<close>

definition afterLastComma :: "jsstring \<Rightarrow> jsstring" where
  \<comment> \<open>what follows the last comma of \<open>s\<close>, all of \<open>s\<close> when it has none\<close>
  "afterLastComma s = rev (takeWhile (\<lambda>c. c \<noteq> chComma) (rev s))"

section \<open>Canned answers of the network\<close>

text \<open>
  The responses and networks that the closed statements below run the code on.
\<close>

definition unavailable :: "error + response \<Rightarrow> bool" where
  \<comment> \<open>a request that failed on the network, or a response whose status is not 2xx\<close>
  "unavailable fetched = (case fetched of Inl e \<Rightarrow> True | Inr response \<Rightarrow> \<not> ok response)"

definition textResponse :: "jsstring \<Rightarrow> response" where
  \<comment> \<open>status 200 and a body that is text and not JSON\<close>
  "textResponse body = \<lparr>ok = True, bodyText = Inr body, bodyJson = Inl SyntaxError\<rparr>"

definition jsonResponse :: "jsstring \<Rightarrow> json \<Rightarrow> response" where
  \<comment> \<open>status 200 and a body that is the JSON text \<open>body\<close>, which parses to \<open>data\<close>\<close>
  "jsonResponse body data = \<lparr>ok = True, bodyText = Inr body, bodyJson = Inr data\<rparr>"

definition notFound :: response where
  \<comment> \<open>status 404\<close>
  "notFound = \<lparr>ok = False, bodyText = Inr (js ''Not Found''), bodyJson = Inl SyntaxError\<rparr>"

definition canned :: "response \<Rightarrow> network" where
  \<comment> \<open>the network that answers every request with the one response\<close>
  "canned response = (\<lambda>k u. Inr response)"

definition scripted :: "(error + response) list \<Rightarrow> network" where
  \<comment> \<open>the network that answers the \<open>k\<close>-th request with the \<open>k\<close>-th entry of the script\<close>
  "scripted answers = (\<lambda>k u. if k < length answers then answers ! k else Inl NetworkError)"

definition emptyTitlePage :: response where
  \<comment> \<open>a \<^verbatim>\<open>7.html\<close> whose seventh field is empty\<close>
  "emptyTitlePage = textResponse (js '',,,,,,'')"

definition songtitleX :: response where
  "songtitleX =
     jsonResponse (js ''{\"songtitle\":\"X\"}'') (JObject [(js ''songtitle'', JString (js ''X''))])"

definition icecastSong :: response where
  "icecastSong =
     jsonResponse (js ''{\"icestats\":{\"source\":[{\"listeners\":3},{\"title\":\"Song\"}]}}'')
       (JObject [(js ''icestats'', JObject [(js ''source'',
          JArray [JObject [(js ''listeners'', JNumber 3)],
                  JObject [(js ''title'', JString (js ''Song''))]])])])"

definition icecastNullSource :: response where
  "icecastNullSource =
     jsonResponse (js ''{\"icestats\":{\"source\":[null,{\"title\":\"Song\"}]}}'')
       (JObject [(js ''icestats'', JObject [(js ''source'',
          JArray [JNull, JObject [(js ''title'', JString (js ''Song''))]])])])"

definition currentSongPage :: response where
  "currentSongPage =
     textResponse (js ''<tr><td>Current Song:</td><td class=\"streamdata\">Other</td></tr>'')"

section \<open>Properties of the sanitizer\<close>

lemma set_tagRest: "set (tagRest cs) \<subseteq> set cs"
  by (induction cs) (auto simp: tagRest_def)

lemma stripTags_subset: "set (stripTags s) \<subseteq> set s"
proof (induction s rule: stripTags.induct)
  case 1
  show ?case by simp
next
  case (2 c cs)
  show ?case
  proof (cases "c = chLT")
    case True
    with 2 have "set (stripTags (tagRest cs)) \<subseteq> set (tagRest cs)" by simp
    with set_tagRest [of cs] True show ?thesis by auto
  next
    case False
    with 2 show ?thesis by auto
  qed
qed

lemma stripTags_noLT: "chLT \<notin> set (stripTags s)"
  by (induction s rule: stripTags.induct) auto

lemma stripTags_id: "chLT \<notin> set s \<Longrightarrow> stripTags s = s"
  by (induction s) auto

lemma stripControl_id: "\<forall>c\<in>set s. \<not> isControl c \<Longrightarrow> stripControl s = s"
  by (simp add: stripControl_def)

lemma stripControl_set: "set (stripControl s) = {c \<in> set s. \<not> isControl c}"
  by (auto simp: stripControl_def)

lemma set_trim: "set (trim s) \<subseteq> set s"
proof -
  have "set (trim s) = set (dropWhile isTrimmed (rev (dropWhile isTrimmed s)))"
    by (simp add: trim_def)
  also have "\<dots> \<subseteq> set (rev (dropWhile isTrimmed s))"
    by (rule set_dropWhileD [THEN subsetI]) 
  also have "\<dots> \<subseteq> set s"
    using set_dropWhileD [of _ isTrimmed s] by auto
  finally show ?thesis .
qed

lemma length_trim: "length (trim s) \<le> length s"
proof -
  have "length (trim s) \<le> length (dropWhile isTrimmed s)"
    using length_dropWhile_le [of isTrimmed "rev (dropWhile isTrimmed s)"] by (simp add: trim_def)
  also have "\<dots> \<le> length s" by (rule length_dropWhile_le)
  finally show ?thesis .
qed

lemma trim_Nil [simp]: "trim [] = []"
  by (simp add: trim_def)

lemma trim_hd: "trim s \<noteq> [] \<Longrightarrow> \<not> isTrimmed (hd (trim s))"
proof -
  assume ne: "trim s \<noteq> []"
  let ?d = "dropWhile isTrimmed s"
  let ?e = "dropWhile isTrimmed (rev ?d)"
  have e: "?e \<noteq> []" using ne by (simp add: trim_def)
  have d: "?d \<noteq> []"
  proof
    assume "?d = []"
    then have "?e = []" by (simp only: rev.simps dropWhile.simps)
    with e show False by (rule notE)
  qed
  have "hd (trim s) = last ?e" using e by (simp add: trim_def hd_rev)
  also have "\<dots> = last (rev ?d)"
    using e by (metis last_appendR takeWhile_dropWhile_id)
  also have "\<dots> = hd ?d" using d by (simp add: last_rev)
  finally show ?thesis using d by (metis hd_dropWhile)
qed

lemma trim_noop: "s = [] \<or> (\<not> isTrimmed (hd s) \<and> \<not> isTrimmed (last s)) \<Longrightarrow> trim s = s"
proof (cases s)
  case Nil
  then show ?thesis by simp
next
  case (Cons c cs)
  assume "s = [] \<or> (\<not> isTrimmed (hd s) \<and> \<not> isTrimmed (last s))"
  with Cons have h: "\<not> isTrimmed c" and l: "\<not> isTrimmed (last s)" by auto
  from h Cons have 1: "dropWhile isTrimmed s = s" by simp
  from l Cons have "\<not> isTrimmed (hd (rev s))" by (simp only: hd_rev list.distinct not_False_eq_True)
  then have 2: "dropWhile isTrimmed (rev s) = rev s"
    by (cases "rev s") simp_all
  show ?thesis by (simp add: trim_def 1 2)
qed

lemma trim_last: "trim s \<noteq> [] \<Longrightarrow> \<not> isTrimmed (last (trim s))"
proof -
  assume ne: "trim s \<noteq> []"
  let ?e = "dropWhile isTrimmed (rev (dropWhile isTrimmed s))"
  have e: "?e \<noteq> []" using ne by (simp add: trim_def)
  have "last (trim s) = hd ?e" using e by (simp add: trim_def last_rev)
  then show ?thesis using e by (metis hd_dropWhile)
qed

lemma cleanText_Nil: "cleanText [] = []"
  by (simp add: cleanText_def substring_def stripControl_def)

lemma cleanMetadata_string: "cleanMetadata (Some (JString s)) = Inr (cleanText s)"
  by (simp add: cleanMetadata_def truthy_def cleanText_Nil)

lemma cleanText_length: "length (cleanText s) \<le> 100"
  by (simp add: cleanText_def substring_def)

lemma cleanText_set: "set (cleanText s) \<subseteq> {c \<in> set s. \<not> isControl c \<and> c \<noteq> chLT}"
proof
  fix c assume "c \<in> set (cleanText s)"
  then have "c \<in> set (trim (stripControl (stripTags s)))"
    by (auto simp: cleanText_def substring_def dest: in_set_takeD)
  with set_trim have c: "c \<in> set (stripControl (stripTags s))" by blast
  then have "\<not> isControl c" and t: "c \<in> set (stripTags s)" by (simp_all add: stripControl_set)
  moreover from t stripTags_noLT [of s] have "c \<noteq> chLT" by auto
  moreover from t stripTags_subset have "c \<in> set s" by blast
  ultimately show "c \<in> {c \<in> set s. \<not> isControl c \<and> c \<noteq> chLT}" by simp
qed

lemma cleanText_twice: "cleanText (cleanText x) = trim (cleanText x)"
proof -
  let ?y = "cleanText x"
  have "chLT \<notin> set ?y" using cleanText_set [of x] by auto
  then have 1: "stripTags ?y = ?y" by (rule stripTags_id)
  have "\<forall>c\<in>set ?y. \<not> isControl c" using cleanText_set [of x] by auto
  then have 2: "stripControl ?y = ?y" by (rule stripControl_id)
  have "length (trim ?y) \<le> 100"
    using length_trim [of ?y] cleanText_length [of x] by simp
  then have "substring 0 100 (trim ?y) = trim ?y" by (simp add: substring_def)
  then show ?thesis by (simp add: cleanText_def [of ?y] 1 2)
qed

lemma trim_trim: "trim (trim s) = trim s"
proof (cases "trim s = []")
  case True
  then show ?thesis by simp
next
  case False
  then show ?thesis by (intro trim_noop disjI2 conjI trim_hd trim_last)
qed

lemma cleanText_short:
  assumes "length (trim (stripControl (stripTags x))) \<le> 100"
  shows "cleanText (cleanText x) = cleanText x"
proof -
  from assms have eq: "cleanText x = trim (stripControl (stripTags x))"
    by (simp add: cleanText_def substring_def)
  have "cleanText (cleanText x) = trim (cleanText x)" by (rule cleanText_twice)
  also have "\<dots> = trim (trim (stripControl (stripTags x)))" by (simp only: eq)
  also have "\<dots> = trim (stripControl (stripTags x))" by (rule trim_trim)
  also have "\<dots> = cleanText x" by (simp only: eq)
  finally show ?thesis .
qed

text \<open>
  Claim C6. Whatever string it is given, \<^verbatim>\<open>cleanMetadata\<close> returns a string of at most
  100 code units that holds no \<^verbatim>\<open><\<close> (so nothing in it matches the tag pattern, and
  stripping tags again changes nothing) and no code unit of the classes
  \<^verbatim>\<open>\x00-\x1F\<close> and \<^verbatim>\<open>\x7F-\x9F\<close>. On \<^verbatim>\<open>undefined\<close>, \<^verbatim>\<open>null\<close> and the empty string it
  returns the empty string.
\<close>

theorem cleanMetadata_invariant:
  "cleanMetadata None = Inr [] \<and>
   cleanMetadata (Some JNull) = Inr [] \<and>
   cleanMetadata (Some (JString [])) = Inr [] \<and>
   (\<exists>out. cleanMetadata (Some (JString s)) = Inr out \<and>
      length out \<le> 100 \<and> chLT \<notin> set out \<and> stripTags out = out \<and>
      (\<forall>c\<in>set out. \<not> isControl c))"
proof -
  have "chLT \<notin> set (cleanText s)" and "\<forall>c\<in>set (cleanText s). \<not> isControl c"
    using cleanText_set [of s] by auto
  then show ?thesis
    by (simp add: cleanMetadata_string cleanText_length stripTags_id cleanText_Nil)
      (simp add: cleanMetadata_def truthy_def)
qed

theorem cleanMetadata_invariant_witness:
  "cleanMetadata (Some (JString (js ''<b>Song</b> Name''))) = Inr (js ''Song Name'') \<and>
   length (js ''Song Name'') \<le> 100 \<and> chLT \<notin> set (js ''Song Name'') \<and>
   list_all (\<lambda>c. \<not> isControl c) (js ''Song Name'')"
proof -
  have e: "cleanMetadata (Some (JString (js ''<b>Song</b> Name''))) = Inr (js ''Song Name'')"
    by code_simp
  from cleanMetadata_invariant [of "js ''<b>Song</b> Name''"] show ?thesis
    unfolding e by (simp add: list_all_iff)
qed

text \<open>
  Claim C3, as the specification states it: \<^verbatim>\<open>clean(clean(x)) == clean(x)\<close> for every
  string. It fails where the cut at 100 code units falls right behind a blank: the text
  of 99 letters \<^verbatim>\<open>a\<close>, a blank and a \<^verbatim>\<open>b\<close> is cleaned to the 99 letters and the blank,
  and cleaning that trims the blank away.
\<close>

theorem cleanMetadata_not_idempotent:
  "cleanMetadata (Some (JString (replicate 99 0x61 @ [0x20, 0x62])))
     = Inr (replicate 99 0x61 @ [0x20]) \<and>
   cleanMetadata (Some (JString (replicate 99 0x61 @ [0x20]))) = Inr (replicate 99 0x61) \<and>
   replicate 99 (0x61 :: jschar) \<noteq> replicate 99 0x61 @ [0x20]"
  by code_simp

text \<open>
  Claim C3, amended. Cleaning a cleaned string only trims it: \<^verbatim>\<open>clean(clean(x))\<close> is
  \<^verbatim>\<open>clean(x)\<close> without its trailing white space. The two are equal whenever nothing
  was cut, that is, whenever the stripped and trimmed text has at most 100 code units.
\<close>

theorem cleanMetadata_twice:
  "cleanMetadata (Some (JString x)) = Inr (cleanText x) \<and>
   cleanMetadata (Some (JString (cleanText x))) = Inr (trim (cleanText x)) \<and>
   (length (trim (stripControl (stripTags x))) \<le> 100 \<longrightarrow>
      cleanMetadata (Some (JString (cleanText x))) = Inr (cleanText x))"
proof -
  have a: "cleanMetadata (Some (JString (cleanText x))) = Inr (trim (cleanText x))"
    by (simp add: cleanMetadata_string cleanText_twice)
  have b: "cleanMetadata (Some (JString (cleanText x))) = Inr (cleanText x)"
    if "length (trim (stripControl (stripTags x))) \<le> 100"
    using that by (simp add: cleanMetadata_string cleanText_short)
  from cleanMetadata_string [of x] a b show ?thesis by blast
qed

theorem cleanMetadata_twice_witness:
  "length (trim (stripControl (stripTags (js '' <b>Song</b> Name '')))) \<le> 100 \<and>
   cleanMetadata (Some (JString (js '' <b>Song</b> Name ''))) = Inr (js ''Song Name'') \<and>
   cleanMetadata (Some (JString (js ''Song Name''))) = Inr (js ''Song Name'')"
proof -
  have h: "length (trim (stripControl (stripTags (js '' <b>Song</b> Name '')))) \<le> 100"
    by code_simp
  have e: "cleanText (js '' <b>Song</b> Name '') = js ''Song Name''"
    by code_simp
  from cleanMetadata_twice [of "js '' <b>Song</b> Name ''"] h
  have "cleanMetadata (Some (JString (js '' <b>Song</b> Name ''))) =
          Inr (cleanText (js '' <b>Song</b> Name '')) \<and>
        cleanMetadata (Some (JString (cleanText (js '' <b>Song</b> Name '')))) =
          Inr (cleanText (js '' <b>Song</b> Name ''))"
    by blast
  with h show ?thesis unfolding e by simp
qed

text \<open>
  Claim C7, as the specification states it: every input of 250 code units is cleaned to
  exactly 100. It fails on 250 blanks, which are trimmed away before the cut.
\<close>

theorem cleanMetadata_blanks_250:
  "length (replicate 250 (0x20 :: jschar)) = 250 \<and>
   cleanMetadata (Some (JString (replicate 250 0x20))) = Inr [] \<and>
   length ([] :: jsstring) \<noteq> 100"
  by code_simp

lemma cleanText_length_min:
  "length (cleanText x) = min 100 (length (trim (stripControl (stripTags x))))"
  by (simp add: cleanText_def substring_def)

text \<open>
  Claim C7, amended. An input of 250 code units is cleaned to as many code units as are
  left of it once tags and control characters are stripped and the white space at both
  ends is trimmed, and to 100 when more are left. So the output has exactly 100 code
  units if and only if at least 100 are left.
\<close>

theorem cleanMetadata_truncates:
  assumes "length x = 250"
  shows "\<exists>out. cleanMetadata (Some (JString x)) = Inr out \<and>
           length out = min 100 (length (trim (stripControl (stripTags x)))) \<and>
           (length out = 100 \<longleftrightarrow> 100 \<le> length (trim (stripControl (stripTags x))))"
  by (auto simp: cleanMetadata_string cleanText_length_min)

theorem cleanMetadata_truncates_witness:
  "length (replicate 249 (0x61 :: jschar) @ [0x0A]) = 250 \<and>
   100 \<le> length (trim (stripControl (stripTags (replicate 249 0x61 @ [0x0A])))) \<and>
   cleanMetadata (Some (JString (replicate 249 0x61 @ [0x0A]))) = Inr (replicate 100 0x61) \<and>
   length (replicate 100 (0x61 :: jschar)) = 100"
proof -
  let ?x = "replicate 249 (0x61 :: jschar) @ [0x0A]"
  have l: "length ?x = 250" by simp
  have e: "cleanMetadata (Some (JString ?x)) = Inr (replicate 100 0x61)"
    by code_simp
  from cleanMetadata_truncates [OF l] obtain out where
    "cleanMetadata (Some (JString ?x)) = Inr out"
    "length out = 100 \<longleftrightarrow> 100 \<le> length (trim (stripControl (stripTags ?x)))"
    by blast
  with e have "100 \<le> length (trim (stripControl (stripTags ?x)))" by simp
  with l e show ?thesis by simp
qed

section \<open>Properties of the base URL\<close>

lemma getBaseUrl_root_examples:
  "getBaseUrl parseURL (js ''http://host.com/'') = js ''http://host.com'' \<and>
   getBaseUrl parseURL (js ''http://host.com/;'') = js ''http://host.com'' \<and>
   getBaseUrl parseURL (js ''http://host.com/livestream'') = js ''http://host.com''"
  by code_simp

text \<open>
  Claim C2. The first example of the specification does not hold on the code: the path
  \<^verbatim>\<open>/9020/stream\<close> contains \<^verbatim>\<open>stream\<close>, so the test on the path returns the origin
  before the segments are looked at, although the comment in the source names this very
  path as the one whose first segment is to be kept. Whatever parser reads the URL as the
  platform does, the result is \<^verbatim>\<open>http://host.com\<close>. The other three examples of the
  specification hold (\<open>getBaseUrl_root_examples\<close>).
\<close>

theorem getBaseUrl_9020_stream:
  assumes "newURL (js ''http://host.com/9020/stream'') =
             Inr \<lparr>protocol = js ''http:'', host = js ''host.com'', pathname = js ''/9020/stream''\<rparr>"
  shows "getBaseUrl newURL (js ''http://host.com/9020/stream'') = js ''http://host.com''"
proof -
  have "includesStr (toLowerCase (js ''/9020/stream'')) (js ''stream'')"
    by code_simp
  moreover have "js ''http:'' @ js ''//'' @ js ''host.com'' = js ''http://host.com''"
    by (simp add: js_def)
  ultimately show ?thesis
    by (simp add: getBaseUrl_def assms)
qed

theorem getBaseUrl_9020_stream_witness:
  "parseURL (js ''http://host.com/9020/stream'') =
     Inr \<lparr>protocol = js ''http:'', host = js ''host.com'', pathname = js ''/9020/stream''\<rparr> \<and>
   getBaseUrl parseURL (js ''http://host.com/9020/stream'') = js ''http://host.com'' \<and>
   js ''http://host.com'' \<noteq> js ''http://host.com/9020''"
proof -
  have p: "parseURL (js ''http://host.com/9020/stream'') =
     Inr \<lparr>protocol = js ''http:'', host = js ''host.com'', pathname = js ''/9020/stream''\<rparr>"
    by code_simp
  have "js ''http://host.com'' \<noteq> js ''http://host.com/9020''"
    by (simp add: js_def)
  with p getBaseUrl_9020_stream [of parseURL, OF p] show ?thesis by simp
qed

section \<open>Properties of the probes\<close>

lemma fetchShoutcastV1_eq:
  "fetchShoutcastV1 net b reqs =
     (tryCatchNull (shoutcastV1Body (net (length reqs) (CORS_PROXY @ b @ js ''/7.html''))),
      reqs @ [CORS_PROXY @ b @ js ''/7.html''])"
  by (simp add: fetchShoutcastV1_def fetch_def)

lemma fetchShoutcastV2_eq:
  "fetchShoutcastV2 net b reqs =
     (tryCatchNull (shoutcastV2Body (net (length reqs) (CORS_PROXY @ b @ js ''/stats?json=1''))),
      reqs @ [CORS_PROXY @ b @ js ''/stats?json=1''])"
  by (simp add: fetchShoutcastV2_def fetch_def)

lemma fetchIcecastJson_eq:
  "fetchIcecastJson net b reqs =
     (tryCatchNull (icecastJsonBody (net (length reqs) (CORS_PROXY @ b @ js ''/status-json.xsl''))),
      reqs @ [CORS_PROXY @ b @ js ''/status-json.xsl''])"
  by (simp add: fetchIcecastJson_def fetch_def)

lemma fetchIcecastRaw_eq:
  "fetchIcecastRaw net b reqs =
     (tryCatchNull (icecastRawBody (net (length reqs) (CORS_PROXY @ b @ js ''/status.xsl''))),
      reqs @ [CORS_PROXY @ b @ js ''/status.xsl''])"
  by (simp add: fetchIcecastRaw_def fetch_def)

lemmas probe_eqs = fetchShoutcastV1_eq fetchShoutcastV2_eq fetchIcecastJson_eq fetchIcecastRaw_eq

lemma tryCatchNull_fulfilled: "\<exists>v. tryCatchNull body = Fulfilled v"
  by (cases body) (simp_all add: tryCatchNull_def)

lemma tryCatchNull_Inr: "tryCatchNull (Inr v) = Fulfilled v"
  by (simp add: tryCatchNull_def)

lemma unavailable_bodies:
  assumes "unavailable f"
  shows "tryCatchNull (shoutcastV1Body f) = Fulfilled None"
    and "tryCatchNull (shoutcastV2Body f) = Fulfilled None"
    and "tryCatchNull (icecastJsonBody f) = Fulfilled None"
    and "tryCatchNull (icecastRawBody f) = Fulfilled None"
  using assms
  by (cases f; simp add: unavailable_def tryCatchNull_def shoutcastV1Body_def shoutcastV2Body_def
      icecastJsonBody_def icecastRawBody_def)+

lemma returnClean_range: "returnClean v = Inr r \<Longrightarrow> \<exists>raw. r = Some (cleanText raw)"
proof -
  assume a: "returnClean v = Inr r"
  show ?thesis
  proof (cases "truthy v")
    case False
    with a have "r = Some []" by (auto simp: returnClean_def cleanMetadata_def)
    then show ?thesis using cleanText_Nil by metis
  next
    case True
    with a show ?thesis
      by (auto simp: returnClean_def cleanMetadata_def split: option.splits json.splits sum.splits)
  qed
qed

lemma scanSources_range: "scanSources xs = Inr (Some s) \<Longrightarrow> \<exists>raw. s = cleanText raw"
proof (induction xs)
  case Nil
  then show ?case by simp
next
  case (Cons x xs)
  then show ?case
    by (auto split: sum.splits if_splits dest: returnClean_range)
qed

lemma bodies_range:
  shows "shoutcastV1Body f = Inr (Some s) \<Longrightarrow> \<exists>raw. s = cleanText raw"
    and "shoutcastV2Body f = Inr (Some s) \<Longrightarrow> \<exists>raw. s = cleanText raw"
    and "icecastJsonBody f = Inr (Some s) \<Longrightarrow> \<exists>raw. s = cleanText raw"
    and "icecastRawBody f = Inr (Some s) \<Longrightarrow> \<exists>raw. s = cleanText raw"
  by (auto simp: shoutcastV1Body_def shoutcastV2Body_def icecastJsonBody_def icecastRawBody_def Let_def
      split: sum.splits if_splits option.splits dest: returnClean_range scanSources_range)


lemma afterLastComma_Cons:
  "afterLastComma (x # xs) =
     (if chComma \<in> set xs then afterLastComma xs else if x = chComma then xs else x # xs)"
  by (auto simp: afterLastComma_def takeWhile_append)

lemma commaField_Nil: "commaField k [] = None"
  by (simp add: commaField_def lit_def)

lemma commaField_Cons:
  "\<not> isLineTerminator x \<Longrightarrow>
   commaField k (x # xs) =
     (case commaField k xs of Some r \<Rightarrow> Some r | None \<Rightarrow> if x = chComma then k xs else None)"
  by (simp add: commaField_def lit_def split: option.splits)

lemma count_pos_iff: "0 < count_list xs a \<longleftrightarrow> a \<in> set xs"
  by (induction xs) auto

lemma commaFields_line:
  assumes "\<forall>c\<in>set s. \<not> isLineTerminator c"
  shows "(commaField ^^ Suc n) captureDotStar s =
           (if Suc n \<le> count_list s chComma then Some (afterLastComma s) else None)"
  using assms
proof (induction n arbitrary: s)
  case 0
  then show ?case
  proof (induction s)
    case Nil
    show ?case by (simp add: commaField_Nil)
  next
    case (Cons x xs)
    from Cons.prems have x: "\<not> isLineTerminator x" and xs: "\<forall>c\<in>set xs. \<not> isLineTerminator c"
      by simp_all
    from Cons.IH xs have ih: "commaField captureDotStar xs =
        (if Suc 0 \<le> count_list xs chComma then Some (afterLastComma xs) else None)"
      by simp
    from xs have cap: "captureDotStar xs = Some xs"
      by (simp add: captureDotStar_def)
    have "commaField captureDotStar (x # xs) =
        (case commaField captureDotStar xs of
           Some r \<Rightarrow> Some r | None \<Rightarrow> if x = chComma then captureDotStar xs else None)"
      using x by (rule commaField_Cons)
    also have "\<dots> = (if Suc 0 \<le> count_list (x # xs) chComma
                      then Some (afterLastComma (x # xs)) else None)"
      using count_pos_iff [of xs chComma]
      by (auto simp: ih cap afterLastComma_Cons Suc_le_eq)
    finally show ?case by simp
  qed
next
  case (Suc n)
  note outer = Suc.IH
  let ?k = "(commaField ^^ Suc n) captureDotStar"
  have step: "(commaField ^^ Suc (Suc n)) captureDotStar = commaField ?k"
    by simp
  from Suc.prems show ?case
    unfolding step
  proof (induction s)
    case Nil
    show ?case by (simp only: commaField_Nil) simp
  next
    case (Cons x xs)
    from Cons.prems have x: "\<not> isLineTerminator x" and xs: "\<forall>c\<in>set xs. \<not> isLineTerminator c"
      by simp_all
    from Cons.IH xs have ih: "commaField ?k xs =
        (if Suc (Suc n) \<le> count_list xs chComma then Some (afterLastComma xs) else None)"
      by blast
    have "commaField ?k (x # xs) =
        (case commaField ?k xs of
           Some r \<Rightarrow> Some r | None \<Rightarrow> if x = chComma then ?k xs else None)"
      using x by (rule commaField_Cons)
    also have "\<dots> = (if Suc (Suc n) \<le> count_list (x # xs) chComma
                      then Some (afterLastComma (x # xs)) else None)"
      using count_pos_iff [of xs chComma]
      by (auto simp: ih outer [OF xs] afterLastComma_Cons Suc_le_eq simp del: funpow.simps)
    finally show ?case .
  qed
qed

lemma searchFrom_fails:
  assumes "\<And>t. suffix t s \<Longrightarrow> m t = None"
  shows "searchFrom m s = None"
  using assms
proof (induction s)
  case Nil
  then show ?case by simp
next
  case (Cons x xs)
  have "m (x # xs) = None" by (rule Cons.prems) simp
  moreover have "searchFrom m xs = None"
    by (rule Cons.IH, rule Cons.prems) (simp add: suffix_Cons)
  ultimately show ?case by simp
qed

lemma searchFrom_first: "m s = Some r \<Longrightarrow> searchFrom m s = Some r"
  by (cases s) simp_all

lemma count_suffix: "suffix t s \<Longrightarrow> count_list t a \<le> count_list s a"
  by (auto simp: suffix_def)

lemma sixFields_line:
  assumes "\<forall>c\<in>set s. \<not> isLineTerminator c"
  shows "commaField (commaField (commaField (commaField (commaField (commaField captureDotStar))))) s
           = (if 6 \<le> count_list s chComma then Some (afterLastComma s) else None)"
  using commaFields_line [OF assms, of 5] by (simp add: numeral_eq_Suc)

lemma matchShoutcastV1_line:
  assumes "\<forall>c\<in>set s. \<not> isLineTerminator c"
  shows "matchShoutcastV1 s =
           (if 6 \<le> count_list s chComma then Some (afterLastComma s) else None)"
proof (cases "6 \<le> count_list s chComma")
  case True
  with sixFields_line [OF assms] show ?thesis
    by (simp add: matchShoutcastV1_def searchFrom_first)
next
  case False
  have "commaField (commaField (commaField (commaField (commaField (commaField captureDotStar))))) t
          = None" if "suffix t s" for t
  proof -
    from that assms have "\<forall>c\<in>set t. \<not> isLineTerminator c"
      by (auto simp: suffix_def)
    moreover from that False have "\<not> 6 \<le> count_list t chComma"
      using count_suffix [of t s chComma] by simp
    ultimately show ?thesis
      by (simp add: sixFields_line)
  qed
  with False show ?thesis
    by (simp add: matchShoutcastV1_def searchFrom_fails)
qed

text \<open>
  Claim C4. The stars of the pattern are greedy, so on a body of one line the six commas
  it matches are the last six and the group holds what follows the last comma, not the
  sixth: the probe returns the sanitized text behind the last comma when the line has six
  commas or more, and \<^verbatim>\<open>null\<close> when it has fewer. A title with a comma in it therefore
  loses everything up to its last comma. On the body of the specification's example,
  whose title has no comma, the result is \<^verbatim>\<open>Artist - Title\<close>.
\<close>

theorem fetchShoutcastV1_after_last_comma:
  assumes "\<forall>c\<in>set body. \<not> isLineTerminator c"
  shows "fst (fetchShoutcastV1 (canned (textResponse body)) b reqs) =
           (if 6 \<le> count_list body chComma
            then Fulfilled (Some (cleanText (afterLastComma body)))
            else Fulfilled None)"
  using assms
  by (simp add: fetchShoutcastV1_eq canned_def textResponse_def shoutcastV1Body_def
      matchShoutcastV1_line returnClean_def cleanMetadata_string tryCatchNull_Inr)

theorem fetchShoutcastV1_after_last_comma_witness:
  "list_all (\<lambda>c. \<not> isLineTerminator c) (js ''1,1,100,100,1,128,Artist, The - Title'') \<and>
   fst (fetchShoutcastV1
          (canned (textResponse (js ''1,1,100,100,1,128,Artist, The - Title'')))
          (js ''http://host.com'') [])
     = Fulfilled (Some (js ''The - Title'')) \<and>
   js ''The - Title'' \<noteq> js ''Artist, The - Title'' \<and>
   fst (fetchShoutcastV1
          (canned (textResponse (js ''1,1,100,100,1,128,Artist - Title'')))
          (js ''http://host.com'') [])
     = Fulfilled (Some (js ''Artist - Title''))"
proof -
  let ?comma = "js ''1,1,100,100,1,128,Artist, The - Title''"
  let ?plain = "js ''1,1,100,100,1,128,Artist - Title''"
  have l1: "list_all (\<lambda>c. \<not> isLineTerminator c) ?comma"
    and l2: "list_all (\<lambda>c. \<not> isLineTerminator c) ?plain"
    by code_simp+
  have e1: "(if 6 \<le> count_list ?comma chComma
             then Fulfilled (Some (cleanText (afterLastComma ?comma)))
             else Fulfilled None) = Fulfilled (Some (js ''The - Title''))"
    by code_simp
  have e2: "(if 6 \<le> count_list ?plain chComma
             then Fulfilled (Some (cleanText (afterLastComma ?plain)))
             else Fulfilled None) = Fulfilled (Some (js ''Artist - Title''))"
    by code_simp
  have ne: "js ''The - Title'' \<noteq> js ''Artist, The - Title''"
    by (simp add: js_def)
  from l1 have "fst (fetchShoutcastV1 (canned (textResponse ?comma)) (js ''http://host.com'') [])
      = Fulfilled (Some (js ''The - Title''))"
    unfolding e1 [symmetric]
    by (intro fetchShoutcastV1_after_last_comma) (simp add: list_all_iff)
  moreover
  from l2 have "fst (fetchShoutcastV1 (canned (textResponse ?plain)) (js ''http://host.com'') [])
      = Fulfilled (Some (js ''Artist - Title''))"
    unfolding e2 [symmetric]
    by (intro fetchShoutcastV1_after_last_comma) (simp add: list_all_iff)
  ultimately show ?thesis using l1 ne by (simp only: simp_thms)
qed

lemma scanSources_first_titled:
  assumes "list_all (\<lambda>p. p \<noteq> JNull \<and> \<not> truthy (lookup p (js ''title''))) pre"
    and "lookup s (js ''title'') = Some (JString t)" and "t \<noteq> []"
  shows "scanSources (pre @ s # post) = Inr (Some (cleanText t))"
  using assms(1)
proof (induction pre)
  case Nil
  from assms(2) have "s \<noteq> JNull" by (auto simp: lookup_def)
  with assms(2,3) show ?case
    by (cases s) (simp_all add: getField_def truthy_def returnClean_def cleanMetadata_def)
next
  case (Cons p pre)
  then show ?case
    by (cases p) (simp_all add: getField_def)
qed

lemma scanSources_untitled:
  assumes "list_all (\<lambda>p. \<not> truthy (lookup p (js ''title''))) xs"
  shows "tryCatchNull (scanSources xs) = Fulfilled None"
  using assms
proof (induction xs)
  case Nil
  show ?case by (simp add: tryCatchNull_def)
next
  case (Cons p xs)
  then show ?case
    by (cases p) (simp_all add: getField_def tryCatchNull_def)
qed

lemma lookup_Some_object: "lookup j name = Some v \<Longrightarrow> truthyJson j"
  by (cases j) (simp_all add: lookup_def)

lemma icecastJsonBody_sources:
  assumes "ok r" and "bodyJson r = Inr data"
    and "lookup data (js ''icestats'') = Some stats" and "lookup stats (js ''source'') = Some src"
  shows "icecastJsonBody (Inr r) =
           (if truthyJson src then scanSources (case src of JArray xs \<Rightarrow> xs | _ \<Rightarrow> [src])
            else Inr None)"
proof -
  from assms(3) have d: "truthyJson data" by (rule lookup_Some_object)
  from assms(4) have s: "truthyJson stats" by (rule lookup_Some_object)
  from d s assms show ?thesis
    by (cases src) (simp_all add: icecastJsonBody_def andField_def truthy_def)
qed


text \<open>
  Where the claim on the Icecast JSON probe holds: \<^verbatim>\<open>icestats.source\<close> is read as a list, or
  as the list of one element when it is no array, and scanned in order. When no source in
  front of it is \<^verbatim>\<open>null\<close> or has a truthy title, the first source whose title is a string
  that is not empty gives the result, its sanitized title. The probe returns \<^verbatim>\<open>null\<close> when
  no source has a truthy title, and when \<^verbatim>\<open>icestats\<close> or \<^verbatim>\<open>source\<close> is missing.
\<close>

lemma fetchIcecastJson_first_titled:
  assumes "ok r" and "bodyJson r = Inr data"
  shows
    "(\<forall>stats src pre s post t.
        lookup data (js ''icestats'') = Some stats \<and> lookup stats (js ''source'') = Some src \<and>
        (case src of JArray xs \<Rightarrow> xs | _ \<Rightarrow> [src]) = pre @ s # post \<and>
        list_all (\<lambda>p. p \<noteq> JNull \<and> \<not> truthy (lookup p (js ''title''))) pre \<and>
        lookup s (js ''title'') = Some (JString t) \<and> t \<noteq> []
        \<longrightarrow> fst (fetchIcecastJson (canned r) b reqs) = Fulfilled (Some (cleanText t))) \<and>
     (\<forall>stats src.
        lookup data (js ''icestats'') = Some stats \<and> lookup stats (js ''source'') = Some src \<and>
        list_all (\<lambda>p. \<not> truthy (lookup p (js ''title''))) (case src of JArray xs \<Rightarrow> xs | _ \<Rightarrow> [src])
        \<longrightarrow> fst (fetchIcecastJson (canned r) b reqs) = Fulfilled None) \<and>
     (lookup data (js ''icestats'') = None \<or>
      (\<exists>stats. lookup data (js ''icestats'') = Some stats \<and> lookup stats (js ''source'') = None)
        \<longrightarrow> fst (fetchIcecastJson (canned r) b reqs) = Fulfilled None)"
proof (intro conjI allI impI)
  fix stats src pre s post t
  assume a: "lookup data (js ''icestats'') = Some stats \<and> lookup stats (js ''source'') = Some src \<and>
        (case src of JArray xs \<Rightarrow> xs | _ \<Rightarrow> [src]) = pre @ s # post \<and>
        list_all (\<lambda>p. p \<noteq> JNull \<and> \<not> truthy (lookup p (js ''title''))) pre \<and>
        lookup s (js ''title'') = Some (JString t) \<and> t \<noteq> []"
  then have scan: "scanSources (case src of JArray xs \<Rightarrow> xs | _ \<Rightarrow> [src]) = Inr (Some (cleanText t))"
    by (simp add: scanSources_first_titled)
  have "truthyJson src"
  proof (cases src)
    case (JArray xs)
    then show ?thesis by simp
  next
    case (JObject kvs)
    then show ?thesis by simp
  next
    case JNull
    with a have "pre = [] \<and> s = src" by (auto simp: Cons_eq_append_conv)
    with a JNull show ?thesis by (simp add: lookup_def)
  next
    case (JBool x)
    with a have "pre = [] \<and> s = src" by (auto simp: Cons_eq_append_conv)
    with a JBool show ?thesis by (simp add: lookup_def)
  next
    case (JNumber x)
    with a have "pre = [] \<and> s = src" by (auto simp: Cons_eq_append_conv)
    with a JNumber show ?thesis by (simp add: lookup_def)
  next
    case (JString x)
    with a have "pre = [] \<and> s = src" by (auto simp: Cons_eq_append_conv)
    with a JString show ?thesis by (simp add: lookup_def)
  qed
  with a scan assms show "fst (fetchIcecastJson (canned r) b reqs) = Fulfilled (Some (cleanText t))"
    by (simp add: fetchIcecastJson_eq canned_def icecastJsonBody_sources tryCatchNull_Inr)
next
  fix stats src
  assume a: "lookup data (js ''icestats'') = Some stats \<and> lookup stats (js ''source'') = Some src \<and>
        list_all (\<lambda>p. \<not> truthy (lookup p (js ''title''))) (case src of JArray xs \<Rightarrow> xs | _ \<Rightarrow> [src])"
  then have "tryCatchNull (scanSources (case src of JArray xs \<Rightarrow> xs | _ \<Rightarrow> [src])) = Fulfilled None"
    by (simp add: scanSources_untitled)
  with a assms show "fst (fetchIcecastJson (canned r) b reqs) = Fulfilled None"
    by (simp add: fetchIcecastJson_eq canned_def icecastJsonBody_sources tryCatchNull_Inr)
next
  assume a: "lookup data (js ''icestats'') = None \<or>
      (\<exists>stats. lookup data (js ''icestats'') = Some stats \<and> lookup stats (js ''source'') = None)"
  then have "\<not> truthy (andField (andField (Some data) (js ''icestats'')) (js ''source''))"
    by (auto simp: andField_def truthy_def split: if_splits)
  with assms show "fst (fetchIcecastJson (canned r) b reqs) = Fulfilled None"
    by (simp add: fetchIcecastJson_eq canned_def icecastJsonBody_def tryCatchNull_Inr)
qed

lemma fetchIcecastJson_first_titled_example:
  "ok icecastSong \<and>
   bodyJson icecastSong =
     Inr (JObject [(js ''icestats'', JObject [(js ''source'',
            JArray [JObject [(js ''listeners'', JNumber 3)],
                    JObject [(js ''title'', JString (js ''Song''))]])])]) \<and>
   fst (fetchIcecastJson (canned icecastSong) (js ''http://host.com'') []) =
     Fulfilled (Some (js ''Song''))"
proof -
  let ?first = "JObject [(js ''listeners'', JNumber 3)]"
  let ?second = "JObject [(js ''title'', JString (js ''Song''))]"
  let ?src = "JArray [?first, ?second]"
  let ?stats = "JObject [(js ''source'', ?src)]"
  let ?data = "JObject [(js ''icestats'', ?stats)]"
  have h1: "ok icecastSong" and h2: "bodyJson icecastSong = Inr ?data"
    by (simp_all add: icecastSong_def jsonResponse_def)
  have p: "lookup ?data (js ''icestats'') = Some ?stats \<and> lookup ?stats (js ''source'') = Some ?src \<and>
        (case ?src of JArray xs \<Rightarrow> xs | _ \<Rightarrow> [?src]) = [?first] @ ?second # [] \<and>
        list_all (\<lambda>p. p \<noteq> JNull \<and> \<not> truthy (lookup p (js ''title''))) [?first] \<and>
        lookup ?second (js ''title'') = Some (JString (js ''Song'')) \<and> js ''Song'' \<noteq> []"
    by code_simp
  have c: "cleanText (js ''Song'') = js ''Song''"
    by code_simp
  from fetchIcecastJson_first_titled [OF h1 h2, THEN conjunct1, rule_format, OF p]
  have "fst (fetchIcecastJson (canned icecastSong) (js ''http://host.com'') []) =
          Fulfilled (Some (cleanText (js ''Song'')))" .
  with h1 h2 show ?thesis by (simp only: c simp_thms)
qed

lemma scanSources_null:
  assumes "list_all (\<lambda>p. \<not> truthy (lookup p (js ''title''))) pre"
  shows "scanSources (pre @ JNull # post) = Inl TypeError"
  using assms
proof (induction pre)
  case Nil
  show ?case by (simp add: getField_def)
next
  case (Cons p pre)
  then show ?case
    by (cases p) (simp_all add: getField_def)
qed

text \<open>
  Claim C5. The claim does not hold on the code where a source in front of the titled one
  is \<^verbatim>\<open>null\<close>: the loop reads \<^verbatim>\<open>source.title\<close> without the test for \<^verbatim>\<open>null\<close> that guards
  \<^verbatim>\<open>data\<close>, \<^verbatim>\<open>data.icestats\<close> and \<^verbatim>\<open>data.icestats.source\<close> two lines above, the read throws,
  and the handler of the probe returns \<^verbatim>\<open>null\<close>. So whenever the list holds a \<^verbatim>\<open>null\<close> with
  no titled source in front of it, the probe returns \<^verbatim>\<open>null\<close>, whatever titles follow.
\<close>

theorem fetchIcecastJson_null_source_absent:
  assumes "ok r" and "bodyJson r = Inr data"
    and "lookup data (js ''icestats'') = Some stats"
    and "lookup stats (js ''source'') = Some (JArray (pre @ JNull # post))"
    and "list_all (\<lambda>p. \<not> truthy (lookup p (js ''title''))) pre"
  shows "fst (fetchIcecastJson (canned r) b reqs) = Fulfilled None"
  using assms
  by (simp add: fetchIcecastJson_eq canned_def icecastJsonBody_sources scanSources_null
      tryCatchNull_def)

theorem fetchIcecastJson_null_source_absent_witness:
  "ok icecastNullSource \<and>
   bodyJson icecastNullSource =
     Inr (JObject [(js ''icestats'', JObject [(js ''source'',
            JArray [JNull, JObject [(js ''title'', JString (js ''Song''))]])])]) \<and>
   lookup (JObject [(js ''title'', JString (js ''Song''))]) (js ''title'')
     = Some (JString (js ''Song'')) \<and>
   fst (fetchIcecastJson (canned icecastNullSource) (js ''http://host.com'') []) = Fulfilled None"
proof -
  let ?second = "JObject [(js ''title'', JString (js ''Song''))]"
  let ?stats = "JObject [(js ''source'', JArray ([] @ JNull # [?second]))]"
  let ?data = "JObject [(js ''icestats'', ?stats)]"
  have h1: "ok icecastNullSource" and h2: "bodyJson icecastNullSource = Inr ?data"
    by (simp_all add: icecastNullSource_def jsonResponse_def)
  have h3: "lookup ?data (js ''icestats'') = Some ?stats"
    and h4: "lookup ?stats (js ''source'') = Some (JArray ([] @ JNull # [?second]))"
    by (simp_all add: lookup_def)
  have h5: "list_all (\<lambda>p. \<not> truthy (lookup p (js ''title''))) []"
    by simp
  have t: "lookup ?second (js ''title'') = Some (JString (js ''Song''))"
    by (simp add: lookup_def)
  from fetchIcecastJson_null_source_absent [OF h1 h2 h3 h4 h5]
  have "fst (fetchIcecastJson (canned icecastNullSource) (js ''http://host.com'') []) = Fulfilled None" .
  with h1 h2 t show ?thesis by simp
qed

section \<open>Properties of the orchestrator\<close>

lemma split_nonempty: "split sep s \<noteq> []"
  by (induction s) (auto split: list.splits)

lemma split_first: "split sep s ! 0 = takeWhile (\<lambda>c. c \<noteq> sep) s"
proof (induction s)
  case Nil
  show ?case by simp
next
  case (Cons c cs)
  then show ?case
    using split_nonempty [of sep cs] by (cases "split sep cs") auto
qed

lemma settleSlot_length: "length (settleSlot ps i slots) = length slots"
  by (simp add: settleSlot_def)

lemma settleSlot_nth:
  "length slots = length ps \<Longrightarrow> k < length ps \<Longrightarrow>
   settleSlot ps i slots ! k = (if k = i \<and> slots ! k = None then Some (ps ! k) else slots ! k)"
  by (auto simp: settleSlot_def nth_list_update)

lemma fold_settle:
  "length slots = length ps \<Longrightarrow>
   length (fold (settleSlot ps) sched slots) = length ps \<and>
   (\<forall>k<length ps. fold (settleSlot ps) sched slots ! k =
      (if slots ! k \<noteq> None then slots ! k else if k \<in> set sched then Some (ps ! k) else None))"
proof (induction sched arbitrary: slots)
  case Nil
  then show ?case by simp
next
  case (Cons i sched)
  let ?s = "settleSlot ps i slots"
  from Cons.prems have l: "length ?s = length ps" by (simp add: settleSlot_length)
  from Cons.IH [OF l] Cons.prems show ?case
    by (auto simp: settleSlot_nth)
qed

lemma allSettled_slots:
  "k < length ps \<Longrightarrow>
   fold (settleSlot ps) sched (replicate (length ps) None) ! k =
     (if k \<in> set sched then Some (ps ! k) else None)"
  using fold_settle [of "replicate (length ps) None" ps sched] by simp

lemma allSettled_complete:
  assumes "{0..<length ps} \<subseteq> set sched"
  shows "allSettled sched ps = Some ps"
proof -
  let ?slots = "fold (settleSlot ps) sched (replicate (length ps) None)"
  have len: "length ?slots = length ps"
    using fold_settle [of "replicate (length ps) None" ps sched] by simp
  have "?slots ! k = Some (ps ! k)" if "k < length ps" for k
    using that assms allSettled_slots [of k ps sched] by auto
  with len have eq: "?slots = map Some ps"
    by (intro nth_equalityI) simp_all
  show ?thesis
    unfolding allSettled_def Let_def eq by (simp add: list_all_iff comp_def)
qed

lemma allSettled_waits:
  assumes "\<not> {0..<length ps} \<subseteq> set sched"
  shows "allSettled sched ps = None"
proof -
  let ?slots = "fold (settleSlot ps) sched (replicate (length ps) None)"
  have len: "length ?slots = length ps"
    using fold_settle [of "replicate (length ps) None" ps sched] by simp
  from assms obtain k where k: "k < length ps" "k \<notin> set sched" by fastforce
  then have "?slots ! k = None" by (simp add: allSettled_slots)
  with k len have "None \<in> set ?slots" by (metis nth_mem)
  then have "\<not> list_all (\<lambda>slot. slot \<noteq> None) ?slots" by (auto simp: list_all_iff)
  then show ?thesis by (simp add: allSettled_def Let_def)
qed

lemma firstOrNull_find:
  "firstOrNull (map settledValue (filter hasContent ps)) =
     (case find hasContent ps of None \<Rightarrow> None | Some p \<Rightarrow> settledValue p)"
proof (induction ps)
  case Nil
  show ?case by (simp add: firstOrNull_def)
next
  case (Cons p ps)
  show ?case
  proof (cases "hasContent p")
    case True
    then show ?thesis
      by (cases p) (auto simp: firstOrNull_def hasContent_def settledValue_def)
  next
    case False
    with Cons show ?thesis by simp
  qed
qed

lemma strategies_eq:
  "strategies newURL net s reqs =
     (let base = getBaseUrl newURL s; raw = takeWhile (\<lambda>c. c \<noteq> chQuestion) s;
          u1 = CORS_PROXY @ base @ js ''/7.html'';
          u2 = CORS_PROXY @ base @ js ''/stats?json=1'';
          u3 = CORS_PROXY @ base @ js ''/status-json.xsl'';
          u4 = CORS_PROXY @ base @ js ''/status.xsl'';
          u5 = CORS_PROXY @ raw @ js ''/7.html'';
          u6 = CORS_PROXY @ raw @ js ''/status-json.xsl'';
          u7 = CORS_PROXY @ raw @ js ''/status.xsl''
      in ([fst (fetchShoutcastV1 net base reqs),
           fst (fetchShoutcastV2 net base (reqs @ [u1])),
           fst (fetchIcecastJson net base (reqs @ [u1, u2])),
           fst (fetchIcecastRaw net base (reqs @ [u1, u2, u3])),
           fst (fetchShoutcastV1 net raw (reqs @ [u1, u2, u3, u4])),
           fst (fetchIcecastJson net raw (reqs @ [u1, u2, u3, u4, u5])),
           fst (fetchIcecastRaw net raw (reqs @ [u1, u2, u3, u4, u5, u6]))],
          reqs @ [u1, u2, u3, u4, u5, u6, u7]))"
  by (simp add: strategies_def probe_eqs split_first Let_def)


lemma strategies_length: "length (fst (strategies newURL net s reqs)) = 7"
  by (simp add: strategies_eq Let_def)

lemma fetchLiveMetadata_nonempty:
  assumes "s \<noteq> []"
  shows "fetchLiveMetadata newURL net sched (Some s) reqs =
     (if {0..<7} \<subseteq> set sched
      then Some (Fulfilled (case find hasContent (fst (strategies newURL net s reqs)) of
                              None \<Rightarrow> None | Some p \<Rightarrow> settledValue p))
      else None,
      snd (strategies newURL net s reqs))"
proof (cases "{0..<7} \<subseteq> set sched")
  case True
  then have "allSettled sched (fst (strategies newURL net s reqs)) =
      Some (fst (strategies newURL net s reqs))"
    by (intro allSettled_complete) (simp add: strategies_length)
  with True assms show ?thesis
    by (simp add: fetchLiveMetadata_def case_prod_unfold firstOrNull_find tryCatchNull_Inr Let_def)
next
  case False
  then have "allSettled sched (fst (strategies newURL net s reqs)) = None"
    by (intro allSettled_waits) (simp add: strategies_length)
  with False assms show ?thesis
    by (simp add: fetchLiveMetadata_def case_prod_unfold Let_def)
qed

text \<open>
  Claim C9. On a \<^verbatim>\<open>null\<close>, \<^verbatim>\<open>undefined\<close> or empty stream URL \<^verbatim>\<open>fetchLiveMetadata\<close>
  returns \<^verbatim>\<open>null\<close> at once: whatever the network and the schedule, the list of requests
  is the one it started with.
\<close>

theorem fetchLiveMetadata_no_url:
  "fetchLiveMetadata newURL net sched None reqs = (Some (Fulfilled None), reqs) \<and>
   fetchLiveMetadata newURL net sched (Some []) reqs = (Some (Fulfilled None), reqs)"
  by (simp add: fetchLiveMetadata_def)

theorem fetchLiveMetadata_no_url_witness:
  "fetchLiveMetadata parseURL (canned icecastSong) [] None [] = (Some (Fulfilled None), []) \<and>
   fetchLiveMetadata parseURL (canned icecastSong) [] (Some (js '''')) [] = (Some (Fulfilled None), [])"
  using fetchLiveMetadata_no_url [of parseURL "canned icecastSong" "[]" "[]"]
  by (simp add: js_def)

text \<open>
  Claim C1, as stated: the value returned is that of the first probe, in the order of
  the array, that produced a value other than \<^verbatim>\<open>null\<close>. It fails when that probe
  produced the empty string: below, the first probe (Shoutcast v1 against the derived
  base) yields the empty title of its page, the second yields \<^verbatim>\<open>X\<close>, and \<^verbatim>\<open>X\<close> is what
  \<^verbatim>\<open>fetchLiveMetadata\<close> returns.
\<close>

theorem fetchLiveMetadata_skips_empty:
  "js ''http://host.com/live'' \<noteq> [] \<and>
   fst (fetchShoutcastV1
          (scripted [Inr emptyTitlePage, Inr songtitleX, Inr notFound, Inr notFound,
                     Inr notFound, Inr notFound, Inr notFound])
          (getBaseUrl parseURL (js ''http://host.com/live'')) [])
     = Fulfilled (Some []) \<and>
   fst (fetchLiveMetadata parseURL
          (scripted [Inr emptyTitlePage, Inr songtitleX, Inr notFound, Inr notFound,
                     Inr notFound, Inr notFound, Inr notFound])
          [0, 1, 2, 3, 4, 5, 6] (Some (js ''http://host.com/live'')) [])
     = Some (Fulfilled (Some (js ''X'')))"
  by code_simp

text \<open>
  Claim C1, amended. For a stream URL that is not empty, \<^verbatim>\<open>fetchLiveMetadata\<close> issues
  exactly seven requests, in this order: Shoutcast v1, Shoutcast v2, Icecast JSON and
  Icecast raw against the derived base, then Shoutcast v1, Icecast JSON and Icecast raw
  against the stream URL cut at its first \<^verbatim>\<open>?\<close>. It does not return before all seven
  probes have settled. When they have, in whatever order, it returns the value of the
  first probe in the order above whose value is neither \<^verbatim>\<open>null\<close> nor the empty string,
  and \<^verbatim>\<open>null\<close> when there is none.
\<close>

theorem fetchLiveMetadata_priority:
  assumes "s \<noteq> []"
  shows
    "let base = getBaseUrl newURL s;
         raw = takeWhile (\<lambda>c. c \<noteq> chQuestion) s;
         u1 = CORS_PROXY @ base @ js ''/7.html'';
         u2 = CORS_PROXY @ base @ js ''/stats?json=1'';
         u3 = CORS_PROXY @ base @ js ''/status-json.xsl'';
         u4 = CORS_PROXY @ base @ js ''/status.xsl'';
         u5 = CORS_PROXY @ raw @ js ''/7.html'';
         u6 = CORS_PROXY @ raw @ js ''/status-json.xsl'';
         u7 = CORS_PROXY @ raw @ js ''/status.xsl'';
         probes = [fst (fetchShoutcastV1 net base reqs),
                   fst (fetchShoutcastV2 net base (reqs @ [u1])),
                   fst (fetchIcecastJson net base (reqs @ [u1, u2])),
                   fst (fetchIcecastRaw net base (reqs @ [u1, u2, u3])),
                   fst (fetchShoutcastV1 net raw (reqs @ [u1, u2, u3, u4])),
                   fst (fetchIcecastJson net raw (reqs @ [u1, u2, u3, u4, u5])),
                   fst (fetchIcecastRaw net raw (reqs @ [u1, u2, u3, u4, u5, u6]))]
     in snd (fetchLiveMetadata newURL net sched (Some s) reqs)
          = reqs @ [u1, u2, u3, u4, u5, u6, u7] \<and>
        ({0..<7} \<subseteq> set sched \<longrightarrow>
           fst (fetchLiveMetadata newURL net sched (Some s) reqs)
             = Some (Fulfilled (case find hasContent probes of
                                  None \<Rightarrow> None | Some p \<Rightarrow> settledValue p))) \<and>
        (\<not> {0..<7} \<subseteq> set sched \<longrightarrow>
           fst (fetchLiveMetadata newURL net sched (Some s) reqs) = None)"
  using assms
  by (simp add: fetchLiveMetadata_nonempty strategies_eq Let_def)

theorem fetchLiveMetadata_priority_witness:
  "js ''http://host.com/live?sid=1'' \<noteq> [] \<and>
   {0..<7} \<subseteq> set [6, 3, 0, 5, 1, 4, 2 :: nat] \<and>
   fetchLiveMetadata parseURL
     (scripted [Inl NetworkError, Inr notFound, Inr icecastSong, Inr currentSongPage,
                Inr notFound, Inr notFound, Inr currentSongPage])
     [6, 3, 0, 5, 1, 4, 2] (Some (js ''http://host.com/live?sid=1'')) []
   = (Some (Fulfilled (Some (js ''Song''))),
      [js ''https://corsproxy.io/?http://host.com/7.html'',
       js ''https://corsproxy.io/?http://host.com/stats?json=1'',
       js ''https://corsproxy.io/?http://host.com/status-json.xsl'',
       js ''https://corsproxy.io/?http://host.com/status.xsl'',
       js ''https://corsproxy.io/?http://host.com/live/7.html'',
       js ''https://corsproxy.io/?http://host.com/live/status-json.xsl'',
       js ''https://corsproxy.io/?http://host.com/live/status.xsl''])"
proof -
  let ?s = "js ''http://host.com/live?sid=1''"
  let ?net = "scripted [Inl NetworkError, Inr notFound, Inr icecastSong, Inr currentSongPage,
                Inr notFound, Inr notFound, Inr currentSongPage]"
  let ?base = "getBaseUrl parseURL ?s"
  let ?raw = "takeWhile (\<lambda>c. c \<noteq> chQuestion) ?s"
  let ?u1 = "CORS_PROXY @ ?base @ js ''/7.html''"
  let ?u2 = "CORS_PROXY @ ?base @ js ''/stats?json=1''"
  let ?u3 = "CORS_PROXY @ ?base @ js ''/status-json.xsl''"
  let ?u4 = "CORS_PROXY @ ?base @ js ''/status.xsl''"
  let ?u5 = "CORS_PROXY @ ?raw @ js ''/7.html''"
  let ?u6 = "CORS_PROXY @ ?raw @ js ''/status-json.xsl''"
  let ?u7 = "CORS_PROXY @ ?raw @ js ''/status.xsl''"
  let ?probes = "[fst (fetchShoutcastV1 ?net ?base []),
                   fst (fetchShoutcastV2 ?net ?base ([] @ [?u1])),
                   fst (fetchIcecastJson ?net ?base ([] @ [?u1, ?u2])),
                   fst (fetchIcecastRaw ?net ?base ([] @ [?u1, ?u2, ?u3])),
                   fst (fetchShoutcastV1 ?net ?raw ([] @ [?u1, ?u2, ?u3, ?u4])),
                   fst (fetchIcecastJson ?net ?raw ([] @ [?u1, ?u2, ?u3, ?u4, ?u5])),
                   fst (fetchIcecastRaw ?net ?raw ([] @ [?u1, ?u2, ?u3, ?u4, ?u5, ?u6]))]"
  let ?R = "fetchLiveMetadata parseURL ?net [6, 3, 0, 5, 1, 4, 2] (Some ?s) []"
  have h1: "?s \<noteq> []" by (simp add: js_def)
  have h2: "{0..<7} \<subseteq> set [6, 3, 0, 5, 1, 4, 2 :: nat]" by code_simp
  from fetchLiveMetadata_priority [OF h1, of parseURL ?net "[]" "[6, 3, 0, 5, 1, 4, 2]"] h2
  have "snd ?R = [] @ [?u1, ?u2, ?u3, ?u4, ?u5, ?u6, ?u7]"
    and "fst ?R = Some (Fulfilled (case find hasContent ?probes of
                                  None \<Rightarrow> None | Some p \<Rightarrow> settledValue p))"
    unfolding Let_def by blast+
  moreover have "[] @ [?u1, ?u2, ?u3, ?u4, ?u5, ?u6, ?u7] =
      [js ''https://corsproxy.io/?http://host.com/7.html'',
       js ''https://corsproxy.io/?http://host.com/stats?json=1'',
       js ''https://corsproxy.io/?http://host.com/status-json.xsl'',
       js ''https://corsproxy.io/?http://host.com/status.xsl'',
       js ''https://corsproxy.io/?http://host.com/live/7.html'',
       js ''https://corsproxy.io/?http://host.com/live/status-json.xsl'',
       js ''https://corsproxy.io/?http://host.com/live/status.xsl'']"
    by code_simp
  moreover have "(case find hasContent ?probes of
                                  None \<Rightarrow> None | Some p \<Rightarrow> settledValue p) = Some (js ''Song'')"
    by code_simp
  ultimately have "?R = (Some (Fulfilled (Some (js ''Song''))),
      [js ''https://corsproxy.io/?http://host.com/7.html'',
       js ''https://corsproxy.io/?http://host.com/stats?json=1'',
       js ''https://corsproxy.io/?http://host.com/status-json.xsl'',
       js ''https://corsproxy.io/?http://host.com/status.xsl'',
       js ''https://corsproxy.io/?http://host.com/live/7.html'',
       js ''https://corsproxy.io/?http://host.com/live/status-json.xsl'',
       js ''https://corsproxy.io/?http://host.com/live/status.xsl''])"
    by (simp only: prod_eq_iff fst_conv snd_conv simp_thms)
  with h1 h2 show ?thesis by (simp only: simp_thms)
qed

lemma tryCatchNull_range:
  assumes "\<And>s. body = Inr (Some s) \<Longrightarrow> \<exists>raw. s = cleanText raw"
  shows "tryCatchNull body = Fulfilled None \<or> (\<exists>raw. tryCatchNull body = Fulfilled (Some (cleanText raw)))"
proof (cases body)
  case (Inl e)
  then show ?thesis by (simp add: tryCatchNull_def)
next
  case (Inr v)
  show ?thesis
  proof (cases v)
    case None
    with Inr show ?thesis by (simp add: tryCatchNull_def)
  next
    case (Some s)
    with Inr assms obtain raw where "s = cleanText raw" by blast
    with Inr Some show ?thesis by (auto simp: tryCatchNull_def)
  qed
qed

lemma body_values:
  shows "tryCatchNull (shoutcastV1Body f) = Fulfilled None \<or>
         (\<exists>raw. tryCatchNull (shoutcastV1Body f) = Fulfilled (Some (cleanText raw)))"
    and "tryCatchNull (shoutcastV2Body f) = Fulfilled None \<or>
         (\<exists>raw. tryCatchNull (shoutcastV2Body f) = Fulfilled (Some (cleanText raw)))"
    and "tryCatchNull (icecastJsonBody f) = Fulfilled None \<or>
         (\<exists>raw. tryCatchNull (icecastJsonBody f) = Fulfilled (Some (cleanText raw)))"
    and "tryCatchNull (icecastRawBody f) = Fulfilled None \<or>
         (\<exists>raw. tryCatchNull (icecastRawBody f) = Fulfilled (Some (cleanText raw)))"
  by (rule tryCatchNull_range, erule bodies_range)+

lemma strategies_range:
  assumes "p \<in> set (fst (strategies newURL net s reqs))"
  shows "p = Fulfilled None \<or> (\<exists>raw. p = Fulfilled (Some (cleanText raw)))"
proof -
  from assms consider
      (v1) f where "p = tryCatchNull (shoutcastV1Body f)"
    | (v2) f where "p = tryCatchNull (shoutcastV2Body f)"
    | (ij) f where "p = tryCatchNull (icecastJsonBody f)"
    | (ir) f where "p = tryCatchNull (icecastRawBody f)"
    by (auto simp: strategies_eq Let_def probe_eqs)
  then show ?thesis
  proof cases
    case v1
    then show ?thesis by (simp only: body_values)
  next
    case v2
    then show ?thesis by (simp only: body_values)
  next
    case ij
    then show ?thesis by (simp only: body_values)
  next
    case ir
    then show ?thesis by (simp only: body_values)
  qed
qed

lemma find_hasContent_range:
  assumes "\<And>p. p \<in> set ps \<Longrightarrow> p = Fulfilled None \<or> (\<exists>raw. p = Fulfilled (Some (cleanText raw)))"
  shows "(case find hasContent ps of None \<Rightarrow> None | Some p \<Rightarrow> settledValue p) = None \<or>
         (\<exists>raw. cleanText raw \<noteq> [] \<and>
            (case find hasContent ps of None \<Rightarrow> None | Some p \<Rightarrow> settledValue p) = Some (cleanText raw))"
proof (cases "find hasContent ps")
  case None
  then show ?thesis by simp
next
  case (Some p)
  then have "p \<in> set ps" and h: "hasContent p"
    by (auto simp: find_Some_iff)
  with assms have "p = Fulfilled None \<or> (\<exists>raw. p = Fulfilled (Some (cleanText raw)))" by blast
  with h obtain raw where "p = Fulfilled (Some (cleanText raw))" "cleanText raw \<noteq> []"
    by (auto simp: hasContent_def)
  with Some show ?thesis by (auto simp: settledValue_def)
qed

lemma find_hasContent_none:
  assumes "\<forall>p\<in>set ps. p = Fulfilled None \<or> p = Fulfilled (Some [])"
  shows "find hasContent ps = None"
  using assms by (auto simp: find_None_iff hasContent_def)

text \<open>
  Claim C10. When every probe has settled, what \<^verbatim>\<open>fetchLiveMetadata\<close> returns is
  \<^verbatim>\<open>null\<close> or a string that \<^verbatim>\<open>cleanMetadata\<close> produced and that is not empty; and when
  every probe produced \<^verbatim>\<open>null\<close> or the empty string, it returns \<^verbatim>\<open>null\<close>.
\<close>

theorem fetchLiveMetadata_never_empty:
  assumes "{0..<7} \<subseteq> set sched"
  shows
    "(fst (fetchLiveMetadata newURL net sched streamUrl reqs) = Some (Fulfilled None) \<or>
      (\<exists>raw. cleanText raw \<noteq> [] \<and>
         fst (fetchLiveMetadata newURL net sched streamUrl reqs)
           = Some (Fulfilled (Some (cleanText raw))))) \<and>
     ((\<forall>p\<in>set (fst (strategies newURL net s reqs)). p = Fulfilled None \<or> p = Fulfilled (Some []))
        \<longrightarrow> fst (fetchLiveMetadata newURL net sched (Some s) reqs) = Some (Fulfilled None))"
proof
  show "fst (fetchLiveMetadata newURL net sched streamUrl reqs) = Some (Fulfilled None) \<or>
      (\<exists>raw. cleanText raw \<noteq> [] \<and>
         fst (fetchLiveMetadata newURL net sched streamUrl reqs)
           = Some (Fulfilled (Some (cleanText raw))))"
  proof (cases streamUrl)
    case None
    then show ?thesis by (simp add: fetchLiveMetadata_def)
  next
    case (Some u)
    show ?thesis
    proof (cases "u = []")
      case True
      with Some show ?thesis by (simp add: fetchLiveMetadata_def)
    next
      case False
      from find_hasContent_range [of "fst (strategies newURL net u reqs)"] strategies_range
      have "(case find hasContent (fst (strategies newURL net u reqs)) of
               None \<Rightarrow> None | Some p \<Rightarrow> settledValue p) = None \<or>
            (\<exists>raw. cleanText raw \<noteq> [] \<and>
               (case find hasContent (fst (strategies newURL net u reqs)) of
                  None \<Rightarrow> None | Some p \<Rightarrow> settledValue p) = Some (cleanText raw))"
        by blast
      with Some False assms show ?thesis
        by (simp add: fetchLiveMetadata_nonempty)
    qed
  qed
next
  show "(\<forall>p\<in>set (fst (strategies newURL net s reqs)). p = Fulfilled None \<or> p = Fulfilled (Some []))
        \<longrightarrow> fst (fetchLiveMetadata newURL net sched (Some s) reqs) = Some (Fulfilled None)"
  proof (cases "s = []")
    case True
    then show ?thesis by (simp add: fetchLiveMetadata_def)
  next
    case False
    with assms show ?thesis
      by (simp add: fetchLiveMetadata_nonempty find_hasContent_none)
  qed
qed

theorem fetchLiveMetadata_never_empty_witness:
  "{0..<7} \<subseteq> set [0, 1, 2, 3, 4, 5, 6 :: nat] \<and>
   fst (strategies parseURL
          (scripted [Inr emptyTitlePage, Inr notFound, Inr notFound, Inr notFound,
                     Inr notFound, Inr notFound, Inr notFound])
          (js ''http://host.com/live'') [])
     = [Fulfilled (Some []), Fulfilled None, Fulfilled None, Fulfilled None,
        Fulfilled None, Fulfilled None, Fulfilled None] \<and>
   fst (fetchLiveMetadata parseURL
          (scripted [Inr emptyTitlePage, Inr notFound, Inr notFound, Inr notFound,
                     Inr notFound, Inr notFound, Inr notFound])
          [0, 1, 2, 3, 4, 5, 6] (Some (js ''http://host.com/live'')) [])
     = Some (Fulfilled None)"
proof -
  let ?net = "scripted [Inr emptyTitlePage, Inr notFound, Inr notFound, Inr notFound,
                     Inr notFound, Inr notFound, Inr notFound]"
  have h: "{0..<7} \<subseteq> set [0, 1, 2, 3, 4, 5, 6 :: nat]"
    by code_simp
  have e: "fst (strategies parseURL ?net (js ''http://host.com/live'') [])
     = [Fulfilled (Some []), Fulfilled None, Fulfilled None, Fulfilled None,
        Fulfilled None, Fulfilled None, Fulfilled None]"
    by code_simp
  from fetchLiveMetadata_never_empty [OF h, THEN conjunct2, of parseURL ?net "js ''http://host.com/live''" "[]"]
  have "fst (fetchLiveMetadata parseURL ?net [0, 1, 2, 3, 4, 5, 6] (Some (js ''http://host.com/live'')) [])
     = Some (Fulfilled None)"
    unfolding e by simp
  with h e show ?thesis by (simp only: simp_thms)
qed

lemma malformed_text:
  assumes "ok r"
  shows "bodyText r = Inl e \<or> (\<exists>t. bodyText r = Inr t \<and> matchShoutcastV1 t = None)
           \<Longrightarrow> tryCatchNull (shoutcastV1Body (Inr r)) = Fulfilled None"
    and "bodyText r = Inl e \<or> (\<exists>t. bodyText r = Inr t \<and> matchIcecastRaw t = None)
           \<Longrightarrow> tryCatchNull (icecastRawBody (Inr r)) = Fulfilled None"
  using assms
  by (auto simp: shoutcastV1Body_def icecastRawBody_def tryCatchNull_def)

lemma malformed_json:
  assumes "ok r" and "bodyJson r = Inl e"
  shows "tryCatchNull (shoutcastV2Body (Inr r)) = Fulfilled None"
    and "tryCatchNull (icecastJsonBody (Inr r)) = Fulfilled None"
  using assms
  by (simp_all add: shoutcastV2Body_def icecastJsonBody_def tryCatchNull_def)

lemma missing_fields:
  assumes "ok r" and "bodyJson r = Inr data"
  shows "lookup data (js ''songtitle'') = None \<Longrightarrow> lookup data (js ''streams'') = None
           \<Longrightarrow> tryCatchNull (shoutcastV2Body (Inr r)) = Fulfilled None"
    and "lookup data (js ''icestats'') = None
           \<Longrightarrow> tryCatchNull (icecastJsonBody (Inr r)) = Fulfilled None"
  using assms
  by (auto simp: shoutcastV2Body_def icecastJsonBody_def tryCatchNull_def andField_def
      andElem0_def truthy_def)

lemma strategies_unavailable:
  assumes "\<forall>k u. unavailable (net k u)"
  shows "fst (strategies newURL net s reqs) = replicate 7 (Fulfilled None)"
  using assms
  by (simp add: strategies_eq Let_def probe_eqs unavailable_bodies numeral_eq_Suc)

text \<open>
  The probes, and the orchestrator on a string: each of the four probes is fulfilled, never
  rejected, whatever the network does. It is fulfilled with \<^verbatim>\<open>null\<close> when the request fails
  or the status is not 2xx, when the body cannot be read or is not JSON, when the pattern
  does not match, and when the expected field is missing. On a stream URL that is a string,
  \<^verbatim>\<open>null\<close> or \<^verbatim>\<open>undefined\<close>, \<^verbatim>\<open>fetchLiveMetadata\<close> is fulfilled as well once the probes
  have settled, with \<^verbatim>\<open>null\<close> when every request failed or met a status that is not 2xx.
\<close>

lemma probes_never_throw:
  "(\<exists>v. fst (fetchShoutcastV1 net b reqs) = Fulfilled v) \<and>
   (\<exists>v. fst (fetchShoutcastV2 net b reqs) = Fulfilled v) \<and>
   (\<exists>v. fst (fetchIcecastJson net b reqs) = Fulfilled v) \<and>
   (\<exists>v. fst (fetchIcecastRaw net b reqs) = Fulfilled v) \<and>
   (unavailable f \<longrightarrow>
      (\<forall>probe\<in>{fetchShoutcastV1, fetchShoutcastV2, fetchIcecastJson, fetchIcecastRaw}.
         fst (probe (\<lambda>k u. f) b reqs) = Fulfilled None)) \<and>
   (ok r \<and> (bodyText r = Inl e \<or> (\<exists>t. bodyText r = Inr t \<and> matchShoutcastV1 t = None))
      \<longrightarrow> fst (fetchShoutcastV1 (canned r) b reqs) = Fulfilled None) \<and>
   (ok r \<and> (bodyText r = Inl e \<or> (\<exists>t. bodyText r = Inr t \<and> matchIcecastRaw t = None))
      \<longrightarrow> fst (fetchIcecastRaw (canned r) b reqs) = Fulfilled None) \<and>
   (ok r \<and> bodyJson r = Inl e
      \<longrightarrow> fst (fetchShoutcastV2 (canned r) b reqs) = Fulfilled None \<and>
          fst (fetchIcecastJson (canned r) b reqs) = Fulfilled None) \<and>
   (ok r \<and> bodyJson r = Inr data \<and>
    lookup data (js ''songtitle'') = None \<and> lookup data (js ''streams'') = None
      \<longrightarrow> fst (fetchShoutcastV2 (canned r) b reqs) = Fulfilled None) \<and>
   (ok r \<and> bodyJson r = Inr data \<and> lookup data (js ''icestats'') = None
      \<longrightarrow> fst (fetchIcecastJson (canned r) b reqs) = Fulfilled None) \<and>
   ({0..<7} \<subseteq> set sched
      \<longrightarrow> (\<exists>v. fst (fetchLiveMetadata newURL net sched streamUrl reqs) = Some (Fulfilled v))) \<and>
   ({0..<7} \<subseteq> set sched \<and> (\<forall>k u. unavailable (net k u))
      \<longrightarrow> fst (fetchLiveMetadata newURL net sched streamUrl reqs) = Some (Fulfilled None))"
proof -
  have settle: "\<exists>v. fst (fetchLiveMetadata newURL net sched streamUrl reqs) = Some (Fulfilled v)"
    if "{0..<7} \<subseteq> set sched"
  proof (cases "streamUrl = None \<or> streamUrl = Some []")
    case True
    then show ?thesis by (auto simp: fetchLiveMetadata_def)
  next
    case False
    then obtain s where "streamUrl = Some s" "s \<noteq> []" by auto
    with that show ?thesis by (simp add: fetchLiveMetadata_nonempty)
  qed
  have none: "fst (fetchLiveMetadata newURL net sched streamUrl reqs) = Some (Fulfilled None)"
    if "{0..<7} \<subseteq> set sched" and "\<forall>k u. unavailable (net k u)"
  proof (cases "streamUrl = None \<or> streamUrl = Some []")
    case True
    then show ?thesis by (auto simp: fetchLiveMetadata_def)
  next
    case False
    then obtain s where "streamUrl = Some s" "s \<noteq> []" by auto
    with that show ?thesis
      by (simp add: fetchLiveMetadata_nonempty strategies_unavailable find_hasContent_none)
  qed
  show ?thesis
    apply (intro conjI impI ballI)
    subgoal by (simp add: fetchShoutcastV1_eq tryCatchNull_fulfilled)
    subgoal by (simp add: fetchShoutcastV2_eq tryCatchNull_fulfilled)
    subgoal by (simp add: fetchIcecastJson_eq tryCatchNull_fulfilled)
    subgoal by (simp add: fetchIcecastRaw_eq tryCatchNull_fulfilled)
    subgoal by (auto simp: probe_eqs unavailable_bodies)
    subgoal by (simp add: fetchShoutcastV1_eq canned_def malformed_text(1) [of r e])
    subgoal by (simp add: fetchIcecastRaw_eq canned_def malformed_text(2) [of r e])
    subgoal by (simp add: fetchShoutcastV2_eq canned_def malformed_json(1) [of r e])
    subgoal by (simp add: fetchIcecastJson_eq canned_def malformed_json(2) [of r e])
    subgoal by (simp add: fetchShoutcastV2_eq canned_def missing_fields(1) [of r data])
    subgoal by (simp add: fetchIcecastJson_eq canned_def missing_fields(2) [of r data])
    subgoal by (rule settle)
    subgoal by (rule none) simp_all
    done
qed

lemma probes_never_throw_example:
  "unavailable (Inr notFound) \<and>
   {0..<7} \<subseteq> set [0, 1, 2, 3, 4, 5, 6 :: nat] \<and>
   fst (fetchShoutcastV1 (canned notFound) (js ''http://host.com'') []) = Fulfilled None \<and>
   fst (fetchShoutcastV2 (canned notFound) (js ''http://host.com'') []) = Fulfilled None \<and>
   fst (fetchIcecastJson (canned notFound) (js ''http://host.com'') []) = Fulfilled None \<and>
   fst (fetchIcecastRaw (canned notFound) (js ''http://host.com'') []) = Fulfilled None \<and>
   fst (fetchLiveMetadata parseURL (canned notFound) [0, 1, 2, 3, 4, 5, 6]
          (Some (js ''http://host.com/live'')) []) = Some (Fulfilled None)"
proof -
  have h1: "unavailable (Inr notFound)"
    by (simp add: unavailable_def notFound_def)
  then have h3: "\<forall>k u. unavailable (canned notFound k u)"
    by (simp add: canned_def)
  have h2: "{0..<7} \<subseteq> set [0, 1, 2, 3, 4, 5, 6 :: nat]"
    by code_simp
  note t = probes_never_throw [of "canned notFound" "js ''http://host.com''" "[]" "Inr notFound"
      notFound NetworkError JNull "[0, 1, 2, 3, 4, 5, 6]" parseURL "Some (js ''http://host.com/live'')"]
  note c = conjunct2 [THEN conjunct2, THEN conjunct2, THEN conjunct2]
  from t [THEN c, THEN conjunct1] h1 have "\<forall>probe\<in>{fetchShoutcastV1, fetchShoutcastV2, fetchIcecastJson, fetchIcecastRaw}.
         fst (probe (\<lambda>k u. Inr notFound) (js ''http://host.com'') []) = Fulfilled None"
    by (rule mp)
  then have p: "fst (fetchShoutcastV1 (canned notFound) (js ''http://host.com'') []) = Fulfilled None"
      "fst (fetchShoutcastV2 (canned notFound) (js ''http://host.com'') []) = Fulfilled None"
      "fst (fetchIcecastJson (canned notFound) (js ''http://host.com'') []) = Fulfilled None"
      "fst (fetchIcecastRaw (canned notFound) (js ''http://host.com'') []) = Fulfilled None"
    by (simp_all add: canned_def)
  from t [THEN c, THEN c, THEN conjunct2, THEN conjunct2, THEN conjunct2] h2 h3 have "fst (fetchLiveMetadata parseURL (canned notFound) [0, 1, 2, 3, 4, 5, 6]
          (Some (js ''http://host.com/live'')) []) = Some (Fulfilled None)"
    by (simp only: simp_thms)
  with h1 h2 p show ?thesis by (simp only: simp_thms)
qed

lemma getBaseUrl_value_string:
  "getBaseUrl_value newURL (JString s) = Inr (getBaseUrl (\<lambda>t. newURL (JString t)) s)"
  by (simp add: getBaseUrl_value_def getBaseUrl_def splitFirst_def Let_def split: sum.splits)

lemma strategies_value_string:
  "strategies_value newURL net (JString s) reqs =
     (Inr (fst (strategies (\<lambda>t. newURL (JString t)) net s reqs)),
      snd (strategies (\<lambda>t. newURL (JString t)) net s reqs))"
  by (simp add: strategies_value_def getBaseUrl_value_string splitFirst_def strategies_def
      Let_def case_prod_unfold)

lemma fetchLiveMetadata_value_string:
  "fetchLiveMetadata_value newURL net sched (Some (JString s)) reqs =
     fetchLiveMetadata (\<lambda>t. newURL (JString t)) net sched (Some s) reqs"
  by (simp add: fetchLiveMetadata_value_def fetchLiveMetadata_def strategies_value_string
      Let_def case_prod_unfold)

lemma fetchLiveMetadata_value_absent:
  "fetchLiveMetadata_value newURL net sched None reqs =
     fetchLiveMetadata (\<lambda>t. newURL (JString t)) net sched None reqs"
  "fetchLiveMetadata_value newURL net sched (Some JNull) reqs =
     fetchLiveMetadata (\<lambda>t. newURL (JString t)) net sched None reqs"
  by (simp_all add: fetchLiveMetadata_value_def fetchLiveMetadata_def)






end
